theory Spec2Isabelle
  imports Complex_Main "HOL-Library.Word"
begin

section \<open>The simulation driver\<close>

text \<open>
  The source file holds two functions: \<open>run\<close>, which loads the configuration, plays
  the configured number of rounds and logs the success rate, and \<open>main\<close>, which reads
  the command line and calls \<open>run\<close>. Vehicles, planner, environment, YAML and logging
  live in other files; what \<open>run\<close> needs of them is taken as a parameter below.
\<close>

subsection \<open>The C++ number types\<close>

text \<open>
  An \<open>int\<close> has 32 bits and is read in two's complement; its conversion to \<open>uint64_t\<close>
  is \<open>scast\<close>.
\<close>

type_synonym int32 = "32 word"
type_synonym uint64 = "64 word"

text \<open>
  A \<open>double\<close> is an IEEE-754 binary64 value. Every finite binary64 value is an integer
  multiple of the smallest subnormal, 2 to the power -1074, and \<open>Finite k\<close> stands for
  \<open>k\<close> such units. The two zeros are identified: addition followed by a comparison,
  which is all the loop below does with a double, cannot tell them apart. The value
  \<open>1.0\<close> is \<open>Finite (2 ^ denorm_exp)\<close>, and a sum whose rounded magnitude reaches
  \<open>2 ^ overflow_exp\<close> units (2 to the power 1024) overflows to an infinity.
\<close>

datatype double = Finite int | PInf | NInf | NaN

definition denorm_exp :: nat where
  "denorm_exp = 1074"

definition overflow_exp :: nat where
  "overflow_exp = 2098"

fun bit_length :: "nat \<Rightarrow> nat" where
  "bit_length n = (if n = 0 then 0 else Suc (bit_length (n div 2)))"

text \<open>
  Rounding of an exact magnitude (in units) to 53 significant bits, ties to even: the
  default rounding of binary64 arithmetic. Below \<open>2 ^ 53\<close> units (subnormals and the first
  normal binade) every integer is representable.
\<close>

definition round_nearest_even :: "nat \<Rightarrow> nat" where
  "round_nearest_even s =
     (if s < 2 ^ 53 then s
      else let e = bit_length s - 53;
               q = s div 2 ^ e;
               r = s mod 2 ^ e;
               h = 2 ^ (e - 1)
           in (if r < h \<or> (r = h \<and> even q) then q else q + 1) * 2 ^ e)"

definition round_double :: "int \<Rightarrow> double" where
  "round_double s =
     (let r = round_nearest_even (nat \<bar>s\<bar>)
      in if 2 ^ overflow_exp \<le> r then (if s < 0 then NInf else PInf)
         else Finite (sgn s * int r))"

text \<open>The sum \<open>a + b\<close> on doubles.\<close>

fun dadd :: "double \<Rightarrow> double \<Rightarrow> double" where
  "dadd NaN _ = NaN"
| "dadd _ NaN = NaN"
| "dadd PInf NInf = NaN"
| "dadd NInf PInf = NaN"
| "dadd PInf _ = PInf"
| "dadd _ PInf = PInf"
| "dadd NInf _ = NInf"
| "dadd _ NInf = NInf"
| "dadd (Finite a) (Finite b) = round_double (a + b)"

text \<open>The comparison \<open>a > b\<close> on doubles; every comparison with a NaN is false.\<close>

fun dgt :: "double \<Rightarrow> double \<Rightarrow> bool" where
  "dgt NaN _ = False"
| "dgt _ NaN = False"
| "dgt (Finite a) (Finite b) = (b < a)"
| "dgt PInf PInf = False"
| "dgt PInf _ = True"
| "dgt _ PInf = False"
| "dgt NInf _ = False"
| "dgt _ NInf = True"

text \<open>
  The conversion of an integer and of a \<open>uint64_t\<close> to \<open>double\<close>, and the real number
  a double denotes.
\<close>

definition double_of_int :: "int \<Rightarrow> double" where
  "double_of_int i = round_double (i * 2 ^ denorm_exp)"

definition u64_to_double :: "uint64 \<Rightarrow> double" where
  "u64_to_double q = double_of_int (uint q)"

fun dval :: "double \<Rightarrow> real option" where
  "dval (Finite k) = Some (real_of_int k / 2 ^ denorm_exp)"
| "dval _ = None"

subsection \<open>Configuration\<close>

text \<open>
  \<open>YAML::LoadFile\<close> either throws a \<open>YAML::Exception\<close> or returns a node. The node is
  seen through the two conversions \<open>run\<close> applies to its entries, \<open>config[key].as<double>()\<close>
  and \<open>config[key].as<int>()\<close>: \<open>None\<close> is where yaml-cpp throws its bad-conversion
  exception, which is the case for a key the file does not have.
\<close>

datatype yaml_exception = BadFile | ParserException | BadConversion string

record config =
  as_double :: "string \<rightharpoonup> double"
  as_int :: "string \<rightharpoonup> int32"

definition get_double :: "config \<Rightarrow> string \<Rightarrow> yaml_exception + double" where
  "get_double cfg key =
     (case as_double cfg key of None \<Rightarrow> Inl (BadConversion key) | Some d \<Rightarrow> Inr d)"

definition get_int :: "config \<Rightarrow> string \<Rightarrow> yaml_exception + int32" where
  "get_int cfg key =
     (case as_int cfg key of None \<Rightarrow> Inl (BadConversion key) | Some i \<Rightarrow> Inr i)"

subsection \<open>The vehicles, as \<open>run\<close> uses them\<close>

text \<open>
  \<open>'v\<close> is the state of the whole \<open>VehicleList\<close> (and of whatever else the absent code
  keeps, such as a random generator or the order in which the planning threads
  interleave). \<open>excute_all\<close> is the net effect of lines 95 to 107: one thread per vehicle
  running \<open>vehicle->excute(vehicles.exclude(vehicle))\<close>, all of them joined.
  \<open>replay_footprint\<close> is the assignment \<open>vehicle->state = state\<close> of the drawing loop at
  the end of a round. \<open>mcts_initialize\<close> and \<open>make_vehicles\<close> read the configuration
  and can throw as the conversions above do. \<open>load_file\<close> is \<open>YAML::LoadFile\<close> on the
  files that exist when the program runs.
\<close>

record 'v world =
  load_file :: "string \<Rightarrow> yaml_exception + config"
  mcts_initialize :: "config \<Rightarrow> yaml_exception option"
  make_vehicles :: "config \<Rightarrow> yaml_exception + 'v"
  reset :: "'v \<Rightarrow> 'v"
  is_all_get_target :: "'v \<Rightarrow> bool"
  is_any_collision :: "'v \<Rightarrow> bool"
  excute_all :: "'v \<Rightarrow> 'v"
  replay_footprint :: "'v \<Rightarrow> 'v"

subsection \<open>One round: the \<open>while (true)\<close> loop\<close>

text \<open>
  A round leaves the loop through one of two \<open>break\<close>s, which log
  \<open>Round ... successed\<close> and \<open>Round ... failed\<close>. The loop need not end, so its
  result is an option: \<open>None\<close> is a round that runs forever.
\<close>

datatype outcome = Successed | Failed

partial_function (option) tick_loop ::
  "'v world \<Rightarrow> double \<Rightarrow> double \<Rightarrow> 'v \<times> double \<Rightarrow> (outcome \<times> 'v \<times> double) option" where
  "tick_loop W delta_t max_simulation_time st =
     (case st of (vehicles, timestamp) \<Rightarrow>
        if is_all_get_target W vehicles then Some (Successed, vehicles, timestamp)
        else if is_any_collision W vehicles \<or> dgt timestamp max_simulation_time
             then Some (Failed, vehicles, timestamp)
        else tick_loop W delta_t max_simulation_time
               (excute_all W vehicles, dadd timestamp delta_t))"

subsection \<open>All rounds: the \<open>for\<close> loop\<close>

text \<open>
  \<open>iter\<close> and \<open>succeed_count\<close> are \<open>uint64_t\<close>; the bound is \<open>rounds_num\<close> converted from
  \<open>int\<close> to \<open>uint64_t\<close> by the comparison \<open>iter < rounds_num\<close>. The list collects the
  outcome logged for each round, oldest first.
\<close>

function rounds_loop ::
  "'v world \<Rightarrow> double \<Rightarrow> double \<Rightarrow> uint64 \<Rightarrow> uint64 \<times> uint64 \<times> outcome list \<times> 'v
     \<Rightarrow> (uint64 \<times> outcome list \<times> 'v) option" where
  "rounds_loop W delta_t max_simulation_time n (iter, succeed_count, logged, vehicles) =
     (if iter < n then
        (case tick_loop W delta_t max_simulation_time (reset W vehicles, Finite 0) of
           None \<Rightarrow> None
         | Some (oc, vehicles', timestamp) \<Rightarrow>
             rounds_loop W delta_t max_simulation_time n
               (iter + 1,
                (if oc = Successed then succeed_count + 1 else succeed_count),
                logged @ [oc],
                replay_footprint W vehicles'))
      else Some (succeed_count, logged, vehicles))"
  by pat_completeness auto
termination
proof (relation "measure (\<lambda>(W, delta_t, max_simulation_time, n, iter, rest). unat n - unat iter)")
  show "wf (measure (\<lambda>(W :: 'v world, delta_t :: double, max_simulation_time :: double,
          n :: uint64, iter :: uint64, rest :: uint64 \<times> outcome list \<times> 'v). unat n - unat iter))"
    by simp
next
  fix W :: "'v world" and delta_t max_simulation_time :: double
    and n iter succeed_count :: uint64 and logged :: "outcome list"
    and vehicles vehicles' :: 'v and oc :: outcome
  assume "iter < n"
  then have "unat iter < unat n"
    by (simp add: word_less_nat_alt)
  moreover have "unat n < 2 ^ LENGTH(64)"
    by (rule unsigned_less)
  ultimately have "unat iter + unat (1 :: uint64) < 2 ^ LENGTH(64)"
    by simp
  then have "unat (iter + 1) = unat iter + unat (1 :: uint64)"
    by (rule unat_add_lem [THEN iffD1])
  with \<open>unat iter < unat n\<close>
  show "((W, delta_t, max_simulation_time, n, iter + 1,
        if oc = Successed then succeed_count + 1 else succeed_count, logged @ [oc],
        replay_footprint W vehicles'),
       W, delta_t, max_simulation_time, n, iter, succeed_count, logged, vehicles)
      \<in> measure (\<lambda>(W, delta_t, max_simulation_time, n, iter, rest). unat n - unat iter)"
    by simp
qed

subsection \<open>The function \<open>run\<close>\<close>

text \<open>
  Lines 49 to 64, all of them outside the \<open>try\<close> block: the four required numbers,
  the planner's initialisation, \<open>max_step\<close> and the vehicles. The constructor of
  \<open>EnvCrossroads\<close> and \<open>VehicleBase::initialize\<close> take numbers only.
\<close>

definition initialize :: "'v world \<Rightarrow> config \<Rightarrow> yaml_exception + (double \<times> double \<times> 'v)" where
  "initialize W cfg =
     (case get_double cfg ''delta_t'' of Inl e \<Rightarrow> Inl e | Inr delta_t \<Rightarrow>
      case get_double cfg ''max_simulation_time'' of Inl e \<Rightarrow> Inl e | Inr max_simulation_time \<Rightarrow>
      case get_double cfg ''map_size'' of Inl e \<Rightarrow> Inl e | Inr map_size \<Rightarrow>
      case get_double cfg ''lane_width'' of Inl e \<Rightarrow> Inl e | Inr lane_width \<Rightarrow>
      case mcts_initialize W cfg of Some e \<Rightarrow> Inl e | None \<Rightarrow>
      case get_int cfg ''max_step'' of Inl e \<Rightarrow> Inl e | Inr max_step \<Rightarrow>
      case make_vehicles W cfg of Inl e \<Rightarrow> Inl e | Inr vehicles \<Rightarrow>
        Inr (delta_t, max_simulation_time, vehicles))"

text \<open>
  Line 157, \<open>double succeed_rate = 100 * succeed_count / rounds_num\<close>: the product and
  the quotient are computed in \<open>uint64_t\<close> (the \<open>int\<close> operands are converted), and only
  the quotient becomes a double. An unsigned division by zero is undefined behaviour:
  \<open>None\<close>.
\<close>

definition succeed_rate :: "uint64 \<Rightarrow> int32 \<Rightarrow> double option" where
  "succeed_rate succeed_count rounds_num =
     (let divisor = (scast rounds_num :: uint64)
      in if divisor = 0 then None
         else Some (u64_to_double ((100 * succeed_count) div divisor)))"

text \<open>
  Drawing and saving figures change nothing that \<open>run\<close> computes, \<open>replay_footprint\<close>
  apart, and are left out, and with them the parameters \<open>save_path\<close>, \<open>show_animation\<close>
  and \<open>save_fig\<close>. How a call of \<open>run\<close> ends: having logged \<open>Error parsing YAML file\<close> and returned;
  with an exception that nothing catches (\<open>std::terminate\<close>); in the division by zero;
  or with the line \<open>Experiment success ... rounds\<close>, which shows \<open>succeed_count\<close>,
  \<open>rounds_num\<close> and \<open>succeed_rate\<close>. The last two carry the outcomes logged for the
  rounds played.
\<close>

datatype run_result =
    ParseError yaml_exception
  | Uncaught yaml_exception
  | DivisionByZero "outcome list" uint64
  | Summary "outcome list" uint64 int32 double

definition run :: "'v world \<Rightarrow> int32 \<Rightarrow> string \<Rightarrow> run_result option" where
  "run W rounds_num config_path =
     (case load_file W config_path of
        Inl e \<Rightarrow> Some (ParseError e)
      | Inr cfg \<Rightarrow>
          (case initialize W cfg of
             Inl e \<Rightarrow> Some (Uncaught e)
           | Inr (delta_t, max_simulation_time, vehicles) \<Rightarrow>
               (case rounds_loop W delta_t max_simulation_time (scast rounds_num)
                       (0, 0, [], vehicles) of
                  None \<Rightarrow> None
                | Some (succeed_count, logged, vehicles') \<Rightarrow>
                    (case succeed_rate succeed_count rounds_num of
                       None \<Rightarrow> Some (DivisionByZero logged succeed_count)
                     | Some rate \<Rightarrow> Some (Summary logged succeed_count rounds_num rate)))))"

subsection \<open>The function \<open>main\<close>\<close>

text \<open>
  The levels of spdlog with their numbers (\<open>trace\<close> is 0, the most verbose), and the
  dictionary of line 32. \<open>subscript\<close> is \<open>operator[]\<close> of \<open>std::unordered_map\<close>: a key
  that is absent is inserted with a value-initialised level, the one numbered 0.
\<close>

datatype level_enum = trace | debug | info | warn | err | critical | off

fun level_number :: "level_enum \<Rightarrow> nat" where
  "level_number trace = 0"
| "level_number debug = 1"
| "level_number info = 2"
| "level_number warn = 3"
| "level_number err = 4"
| "level_number critical = 5"
| "level_number off = 6"

definition LOG_LEVEL_DICT :: "string \<rightharpoonup> level_enum" where
  "LOG_LEVEL_DICT =
     map_of [(''trace'', trace), (''debug'', debug), (''info'', info),
             (''warn'', warn), (''err'', err), (''critical'', critical)]"

definition value_initialized :: level_enum where
  "value_initialized = trace"

definition subscript ::
  "(string \<rightharpoonup> level_enum) \<Rightarrow> string \<Rightarrow> level_enum \<times> (string \<rightharpoonup> level_enum)" where
  "subscript dict key =
     (case dict key of
        Some v \<Rightarrow> (v, dict)
      | None \<Rightarrow> (value_initialized, dict(key \<mapsto> value_initialized)))"

text \<open>
  The local variables of \<open>main\<close> that the options set, and the options as
  \<open>getopt_long\<close> hands them over: the option character with its argument;
  \<open>Opt_unknown\<close> is any other return value, which takes the \<open>default\<close> branch.
  \<open>stoi\<close> is \<open>std::stoi\<close>, \<open>None\<close> where it throws.
\<close>

record main_vars =
  rounds_num :: int32
  output_path :: string
  config_path :: string
  show_animation :: bool
  save_flag :: bool
  log_level :: string

datatype cli_opt =
  Opt_r string | Opt_o string | Opt_l string | Opt_c string | Opt_n | Opt_f | Opt_unknown

datatype main_exit = ExitFailure | StoiThrew

definition main_defaults :: main_vars where
  "main_defaults =
     \<lparr>rounds_num = 5, output_path = ''logs'', config_path = ''unprotected_left_turn.yaml'',
      show_animation = True, save_flag = False, log_level = ''info''\<rparr>"

fun parse_opts ::
  "(string \<Rightarrow> int32 option) \<Rightarrow> main_vars \<Rightarrow> cli_opt list \<Rightarrow> main_exit + main_vars" where
  "parse_opts stoi vars [] = Inr vars"
| "parse_opts stoi vars (Opt_r optarg # rest) =
     (case stoi optarg of
        None \<Rightarrow> Inl StoiThrew
      | Some i \<Rightarrow> parse_opts stoi (vars\<lparr>rounds_num := i\<rparr>) rest)"
| "parse_opts stoi vars (Opt_o optarg # rest) =
     parse_opts stoi (vars\<lparr>output_path := optarg\<rparr>) rest"
| "parse_opts stoi vars (Opt_l optarg # rest) =
     parse_opts stoi (vars\<lparr>log_level := optarg\<rparr>) rest"
| "parse_opts stoi vars (Opt_c optarg # rest) =
     parse_opts stoi (vars\<lparr>config_path := optarg\<rparr>) rest"
| "parse_opts stoi vars (Opt_n # rest) =
     parse_opts stoi (vars\<lparr>show_animation := False\<rparr>) rest"
| "parse_opts stoi vars (Opt_f # rest) =
     parse_opts stoi (vars\<lparr>save_flag := True\<rparr>) rest"
| "parse_opts stoi vars (Opt_unknown # rest) = Inl ExitFailure"

text \<open>
  \<open>main\<close> returns the level handed to \<open>spdlog::set_level\<close> and how \<open>run\<close> ended, unless
  it exits while reading the options. The configuration file is named relative to the
  project's \<open>config\<close> directory, as the option gives it; the output directory only
  matters for the figures.
\<close>

definition main ::
  "'v world \<Rightarrow> (string \<Rightarrow> int32 option) \<Rightarrow> cli_opt list
     \<Rightarrow> main_exit + (level_enum \<times> run_result option)" where
  "main W stoi opts =
     (case parse_opts stoi main_defaults opts of
        Inl x \<Rightarrow> Inl x
      | Inr vars \<Rightarrow>
          Inr (fst (subscript LOG_LEVEL_DICT (log_level vars)),
               run W (rounds_num vars) (config_path vars)))"

subsection \<open>Test fixtures\<close>

text \<open>
  A small world to run the definitions on. Its vehicles are a pair: the number of the
  round and the ticks played in it. In each round the vehicles arrive after two ticks,
  crash after one, or wander about for ever, as \<open>fate_of\<close> says for that round.
\<close>

datatype fate = Arrives | Crashes | Wanders

definition test_world ::
  "(nat \<Rightarrow> fate) \<Rightarrow> (string \<Rightarrow> yaml_exception + config) \<Rightarrow> (nat \<times> nat) world" where
  "test_world fate_of files =
     \<lparr>load_file = files,
      mcts_initialize = (\<lambda>cfg. None),
      make_vehicles = (\<lambda>cfg. Inr (0, 0)),
      reset = (\<lambda>(r, k). (Suc r, 0)),
      is_all_get_target = (\<lambda>(r, k). fate_of r = Arrives \<and> 2 \<le> k),
      is_any_collision = (\<lambda>(r, k). fate_of r = Crashes \<and> 1 \<le> k),
      excute_all = (\<lambda>(r, k). (r, Suc k)),
      replay_footprint = (\<lambda>v. v)\<rparr>"

definition test_config :: "double \<Rightarrow> double \<Rightarrow> config" where
  "test_config delta_t max_simulation_time =
     \<lparr>as_double = map_of [(''delta_t'', delta_t), (''max_simulation_time'', max_simulation_time),
                           (''map_size'', double_of_int 25), (''lane_width'', double_of_int 4)],
      as_int = map_of [(''max_step'', 8)]\<rparr>"

text \<open>
  The first round ends in a crash, the second never reaches anything, the third and
  all later ones arrive. The default file sets a step of 1 and a ceiling of 3; one file
  sets a step of 0, one has no \<open>delta_t\<close>, one does not parse, and no other exists.
\<close>

definition test_fates :: "nat \<Rightarrow> fate" where
  "test_fates r = (if r = 1 then Crashes else if r = 2 then Wanders else Arrives)"

definition test_files :: "string \<Rightarrow> yaml_exception + config" where
  "test_files path =
     (if path = ''unprotected_left_turn.yaml''
        then Inr (test_config (double_of_int 1) (double_of_int 3))
      else if path = ''zero_step.yaml''
        then Inr (test_config (Finite 0) (double_of_int 3))
      else if path = ''no_delta_t.yaml''
        then Inr \<lparr>as_double = map_of [(''max_simulation_time'', double_of_int 3),
                                     (''map_size'', double_of_int 25),
                                     (''lane_width'', double_of_int 4)],
                  as_int = map_of [(''max_step'', 8)]\<rparr>
      else if path = ''garbled.yaml'' then Inl ParserException
      else Inl BadFile)"

definition test_sim :: "(nat \<times> nat) world" where
  "test_sim = test_world test_fates test_files"

definition test_stoi :: "string \<Rightarrow> int32 option" where
  "test_stoi s = (if s = ''0'' then Some 0 else if s = ''2'' then Some 2
                  else if s = ''3'' then Some 3 else None)"

subsection \<open>Auxiliary notions for the statements\<close>

text \<open>The double whose value is the integer \<open>i\<close>, when \<open>i\<close> is small enough to be one.\<close>

definition whole :: "int \<Rightarrow> double" where
  "whole i = Finite (i * 2 ^ denorm_exp)"

text \<open>
  The three outcomes of a round that the specification names, and the termination test
  as the specification words it: all agents at goal, else any collision, else the time
  ceiling exceeded.
\<close>

datatype round_outcome = Succeeded | Collided | TimedOut

definition spec_termination ::
  "'v world \<Rightarrow> double \<Rightarrow> 'v \<times> double \<Rightarrow> round_outcome option" where
  "spec_termination W max_simulation_time st =
     (case st of (vehicles, timestamp) \<Rightarrow>
        if is_all_get_target W vehicles then Some Succeeded
        else if is_any_collision W vehicles then Some Collided
        else if dgt timestamp max_simulation_time then Some TimedOut
        else None)"

text \<open>
  The value of \<open>timestamp\<close> after \<open>k\<close> ticks of a round: \<open>0.0\<close> from line 76, and one
  \<open>timestamp += delta_t\<close> of line 133 per tick.
\<close>

definition timestamp_after :: "double \<Rightarrow> nat \<Rightarrow> double" where
  "timestamp_after delta_t k = ((\<lambda>timestamp. dadd timestamp delta_t) ^^ k) (Finite 0)"

text \<open>
  A list of results is the rounds of a run played one after the other: each entry is
  what the loop of a round returns when started, at time 0, from the reset of the
  vehicles that the round before left behind.
\<close>

fun rounds_played ::
  "'v world \<Rightarrow> double \<Rightarrow> double \<Rightarrow> 'v \<Rightarrow> (outcome \<times> 'v \<times> double) list \<Rightarrow> bool" where
  "rounds_played W delta_t max_simulation_time vehicles [] = True"
| "rounds_played W delta_t max_simulation_time vehicles (r # rs) =
     (tick_loop W delta_t max_simulation_time (reset W vehicles, Finite 0) = Some r \<and>
      rounds_played W delta_t max_simulation_time (replay_footprint W (fst (snd r))) rs)"

section \<open>Facts about the doubles\<close>

declare bit_length.simps [simp del]

lemma bit_length_le: "bit_length n \<le> k \<longleftrightarrow> n < 2 ^ k"
proof (induction n arbitrary: k rule: bit_length.induct)
  case (1 n)
  show ?case
  proof (cases "n = 0")
    case True
    then show ?thesis by (simp add: bit_length.simps)
  next
    case False
    show ?thesis
    proof (cases k)
      case 0
      with False show ?thesis by (simp add: bit_length.simps)
    next
      case (Suc j)
      have "bit_length n = Suc (bit_length (n div 2))"
        using False by (simp add: bit_length.simps)
      moreover have "bit_length (n div 2) \<le> j \<longleftrightarrow> n div 2 < 2 ^ j"
        using "1.IH" [OF False] .
      moreover have "n div 2 < 2 ^ j \<longleftrightarrow> n < 2 ^ Suc j"
        by auto
      ultimately show ?thesis using Suc by simp
    qed
  qed
qed

lemma bit_length_mult_pow2:
  assumes "0 < m"
  shows "bit_length (m * 2 ^ j) = bit_length m + j"
proof (induction j)
  case 0
  then show ?case by simp
next
  case (Suc j)
  have "m * 2 ^ Suc j \<noteq> 0" using assms by simp
  then have "bit_length (m * 2 ^ Suc j) = Suc (bit_length (m * 2 ^ Suc j div 2))"
    by (subst bit_length.simps) simp
  also have "m * 2 ^ Suc j div 2 = m * 2 ^ j" by simp
  finally show ?case using Suc by simp
qed

lemma round_nearest_even_exact:
  assumes "m < 2 ^ 53"
  shows "round_nearest_even (m * 2 ^ j) = m * 2 ^ j"
proof (cases "m * 2 ^ j < 2 ^ 53")
  case True
  then show ?thesis by (simp add: round_nearest_even_def)
next
  case False
  then have mpos: "0 < m" by (cases "m = 0") auto
  define e where "e = bit_length (m * 2 ^ j) - 53"
  have "bit_length m \<le> 53" using assms by (simp add: bit_length_le)
  then have "e \<le> j" by (simp add: e_def bit_length_mult_pow2 [OF mpos])
  then obtain d where j: "j = e + d" using le_Suc_ex by blast
  have s: "m * 2 ^ j = (m * 2 ^ d) * 2 ^ e" by (simp add: j power_add)
  have r: "(m * 2 ^ j) mod 2 ^ e = 0" by (simp add: s)
  have q: "(m * 2 ^ j) div 2 ^ e * 2 ^ e = m * 2 ^ j" by (simp add: s)
  have h: "(0::nat) < 2 ^ (e - 1)" by simp
  show ?thesis
    using False r q h by (simp add: round_nearest_even_def Let_def e_def [symmetric])
qed

lemma round_nearest_even_pow2: "round_nearest_even (2 ^ j) = 2 ^ j"
  using round_nearest_even_exact [of 1 j] by simp

lemma round_nearest_even_tie:
  "round_nearest_even ((2 ^ 53 + 1) * 2 ^ j) = 2 ^ 53 * 2 ^ j"
proof -
  let ?s = "((2::nat) ^ 53 + 1) * 2 ^ j"
  have big: "\<not> ?s < 2 ^ 53"
  proof -
    have "(2::nat) ^ 53 + 1 \<le> ?s" by simp
    then show ?thesis by linarith
  qed
  have "bit_length ((2::nat) ^ 53 + 1) = 54"
  proof -
    have "bit_length ((2::nat) ^ 53 + 1) \<le> 54" by (simp add: bit_length_le)
    moreover have "\<not> bit_length ((2::nat) ^ 53 + 1) \<le> 53" by (simp add: bit_length_le)
    ultimately show ?thesis by linarith
  qed
  then have e: "bit_length ?s - 53 = Suc j" by (simp add: bit_length_mult_pow2)
  have s: "?s = 2 ^ 52 * 2 ^ Suc j + 2 ^ j" by (simp add: algebra_simps)
  have q: "?s div 2 ^ Suc j = 2 ^ 52"
    unfolding s by (subst div_mult_self3) simp_all
  have r: "?s mod 2 ^ Suc j = 2 ^ j"
    unfolding s by simp
  have "round_nearest_even ?s = 2 ^ 52 * 2 ^ Suc j"
    unfolding round_nearest_even_def Let_def e q r using big by simp
  then show ?thesis by simp
qed

text \<open>
  A magnitude of at most \<open>2 ^ 53\<close> times a power of two, below the overflow threshold,
  is a double, so a sum of that form is exact.
\<close>

lemma round_double_exact:
  assumes "\<bar>i\<bar> \<le> 2 ^ 53" and "j + 53 < overflow_exp"
  shows "round_double (i * 2 ^ j) = Finite (i * 2 ^ j)"
proof -
  define m where "m = nat \<bar>i\<bar>"
  have m: "m \<le> 2 ^ 53" using assms(1) by (simp add: m_def nat_le_iff)
  have abs: "nat \<bar>i * 2 ^ j\<bar> = m * 2 ^ j"
    by (simp add: m_def abs_mult nat_mult_distrib)
  have rne: "round_nearest_even (m * 2 ^ j) = m * 2 ^ j"
  proof (cases "m = 2 ^ 53")
    case True
    have "round_nearest_even (2 ^ (53 + j)) = 2 ^ (53 + j)"
      by (rule round_nearest_even_pow2)
    then show ?thesis by (simp add: True power_add)
  next
    case False
    with m have "m < 2 ^ 53" by simp
    then show ?thesis by (rule round_nearest_even_exact)
  qed
  have "m * 2 ^ j \<le> 2 ^ 53 * 2 ^ j" using m by simp
  also have "\<dots> = (2::nat) ^ (53 + j)" by (simp add: power_add)
  also have "\<dots> < 2 ^ overflow_exp"
    by (rule power_strict_increasing) (use assms(2) in simp_all)
  finally have small: "\<not> 2 ^ overflow_exp \<le> m * 2 ^ j" by simp
  have "sgn (i * 2 ^ j) * int (m * 2 ^ j) = i * 2 ^ j"
    by (simp add: m_def sgn_mult mult.assoc [symmetric] mult_sgn_abs)
  then show ?thesis
    unfolding round_double_def Let_def abs rne using small by simp
qed

lemma dadd_exact:
  assumes "\<bar>a + b\<bar> \<le> 2 ^ 53" and "j + 53 < overflow_exp"
  shows "dadd (Finite (a * 2 ^ j)) (Finite (b * 2 ^ j)) = Finite ((a + b) * 2 ^ j)"
  using round_double_exact [OF assms] by (simp add: distrib_right)

lemma denorm_exp_in_range: "denorm_exp + 53 < overflow_exp"
  by (simp add: denorm_exp_def overflow_exp_def)

lemma round_double_whole:
  "\<bar>i\<bar> \<le> 2 ^ 53 \<Longrightarrow> round_double (i * 2 ^ denorm_exp) = Finite (i * 2 ^ denorm_exp)"
  by (rule round_double_exact [OF _ denorm_exp_in_range])

lemma double_of_int_whole:
  "\<bar>i\<bar> \<le> 2 ^ 53 \<Longrightarrow> double_of_int i = Finite (i * 2 ^ denorm_exp)"
  by (simp add: double_of_int_def round_double_whole)

lemma dadd_whole:
  "\<bar>a + b\<bar> \<le> 2 ^ 53 \<Longrightarrow>
     dadd (Finite (a * 2 ^ denorm_exp)) (Finite (b * 2 ^ denorm_exp))
       = Finite ((a + b) * 2 ^ denorm_exp)"
  by (rule dadd_exact [OF _ denorm_exp_in_range])

text \<open>
  Steps that are a small multiple of a power of two, such as 0.25 or 1, add up without
  rounding for as long as the multiple stays below \<open>2 ^ 53\<close>.
\<close>

lemma dyadic_steps_exact:
  assumes "int N * c \<le> 2 ^ 53" and "0 \<le> c" and "j + 53 < overflow_exp"
  shows "\<forall>k<N. dadd (Finite (int k * (c * 2 ^ j))) (Finite (c * 2 ^ j))
                  = Finite (int (Suc k) * (c * 2 ^ j))"
proof (intro allI impI)
  fix k assume "k < N"
  then have "int (Suc k) * c \<le> int N * c"
    using assms(2) by (intro mult_right_mono) simp_all
  with assms(1) have "int (Suc k) * c \<le> 2 ^ 53" by linarith
  moreover have "0 \<le> int (Suc k) * c" using assms(2) by simp
  moreover have "int k * c + c = int (Suc k) * c" by (simp add: algebra_simps)
  ultimately have "\<bar>int k * c + c\<bar> \<le> 2 ^ 53" by simp
  from dadd_exact [OF this assms(3)]
  show "dadd (Finite (int k * (c * 2 ^ j))) (Finite (c * 2 ^ j))
          = Finite (int (Suc k) * (c * 2 ^ j))"
    by (simp add: algebra_simps)
qed

text \<open>One more than \<open>2 ^ 53\<close> is a tie between two doubles, and rounds back to \<open>2 ^ 53\<close>.\<close>

lemma dadd_absorbed:
  "dadd (Finite (2 ^ 53 * 2 ^ denorm_exp)) (Finite (1 * 2 ^ denorm_exp))
     = Finite (2 ^ 53 * 2 ^ denorm_exp)"
proof -
  have s: "nat \<bar>2 ^ 53 * 2 ^ denorm_exp + 1 * 2 ^ denorm_exp :: int\<bar>
             = (2 ^ 53 + 1) * 2 ^ denorm_exp"
    by (simp add: nat_add_distrib nat_mult_distrib nat_power_eq distrib_right)
  have "(2::nat) ^ 53 * 2 ^ denorm_exp = 2 ^ (53 + denorm_exp)" by (simp add: power_add)
  also have "\<dots> < 2 ^ overflow_exp"
    by (rule power_strict_increasing) (simp_all add: denorm_exp_def overflow_exp_def)
  finally have small: "\<not> (2::nat) ^ overflow_exp \<le> 2 ^ 53 * 2 ^ denorm_exp" by simp
  have pos: "sgn (2 ^ 53 * 2 ^ denorm_exp + 1 * 2 ^ denorm_exp :: int) = 1"
    by (simp add: sgn_1_pos add_pos_pos)
  show ?thesis
    unfolding dadd.simps round_double_def Let_def s round_nearest_even_tie pos
    using small by simp
qed

text \<open>Rounding loses at most one part in \<open>2 ^ 53\<close>.\<close>

lemma pow2_le_of_bit_length:
  assumes "0 < s"
  shows "2 ^ (bit_length s - 1) \<le> s"
proof -
  have "0 < bit_length s"
    using assms by (subst bit_length.simps) simp
  then have "\<not> bit_length s \<le> bit_length s - 1" by simp
  then have "\<not> s < 2 ^ (bit_length s - 1)" by (simp add: bit_length_le)
  then show ?thesis by simp
qed

lemma round_nearest_even_lower:
  "s * (2 ^ 53 - 1) \<le> round_nearest_even s * 2 ^ 53"
proof (cases "s < 2 ^ 53")
  case True
  then have "round_nearest_even s = s" by (simp add: round_nearest_even_def)
  then show ?thesis by simp
next
  case False
  define e where "e = bit_length s - 53"
  define h :: nat where "h = 2 ^ (e - 1)"
  have "\<not> bit_length s \<le> 53" using False by (simp add: bit_length_le)
  then have e: "0 < e" and bl: "bit_length s - 1 = (e - 1) + 53"
    by (simp_all add: e_def)
  have spos: "0 < s" using False by (cases "s = 0") simp_all
  have "2 ^ ((e - 1) + 53) \<le> s"
    using pow2_le_of_bit_length [OF spos] unfolding bl .
  then have hs: "h * 2 ^ 53 \<le> s" by (simp add: h_def power_add)
  have split: "s = s div 2 ^ e * 2 ^ e + s mod 2 ^ e" by (simp only: div_mult_mod_eq)
  have rne: "round_nearest_even s =
      (if s mod 2 ^ e < h \<or> (s mod 2 ^ e = h \<and> even (s div 2 ^ e))
       then s div 2 ^ e else s div 2 ^ e + 1) * 2 ^ e"
    using False by (simp add: round_nearest_even_def Let_def e_def h_def)
  have "s \<le> round_nearest_even s + h"
  proof (cases "s mod 2 ^ e < h \<or> (s mod 2 ^ e = h \<and> even (s div 2 ^ e))")
    case True
    then have "round_nearest_even s = s div 2 ^ e * 2 ^ e"
      by (simp only: rne if_True)
    moreover from True have "s mod 2 ^ e \<le> h" by auto
    ultimately show ?thesis using split by linarith
  next
    case no: False
    then have "round_nearest_even s = (s div 2 ^ e + 1) * 2 ^ e"
      by (simp only: rne if_False)
    moreover have "s mod 2 ^ e < 2 ^ e" by simp
    moreover have "(s div 2 ^ e + 1) * 2 ^ e = s div 2 ^ e * 2 ^ e + 2 ^ e"
      by (simp add: algebra_simps)
    ultimately have "s \<le> round_nearest_even s"
      using split by linarith
    then show ?thesis by simp
  qed
  then have "s * 2 ^ 53 \<le> round_nearest_even s * 2 ^ 53 + h * 2 ^ 53"
    by (metis add_mult_distrib mult_le_mono1)
  with hs have "s * 2 ^ 53 \<le> round_nearest_even s * 2 ^ 53 + s" by linarith
  moreover have "s * (2 ^ 53 - 1) + s = s * 2 ^ 53"
    by (simp add: algebra_simps)
  ultimately show ?thesis by linarith
qed

lemma round_double_lower:
  assumes "0 \<le> s"
  shows "round_double s = PInf \<or>
         (\<exists>a. round_double s = Finite a \<and> s * (2 ^ 53 - 1) \<le> a * 2 ^ 53)"
proof (cases "2 ^ overflow_exp \<le> round_nearest_even (nat \<bar>s\<bar>)")
  case True
  then show ?thesis using assms by (simp add: round_double_def)
next
  case False
  have low: "nat s * (2 ^ 53 - 1) \<le> round_nearest_even (nat s) * 2 ^ 53"
    by (rule round_nearest_even_lower)
  have "int (nat s * (2 ^ 53 - 1)) \<le> int (round_nearest_even (nat s) * 2 ^ 53)"
    using low by (rule iffD2 [OF of_nat_le_iff])
  then have "s * (2 ^ 53 - 1) \<le> int (round_nearest_even (nat s)) * 2 ^ 53"
    using assms by (simp add: of_nat_diff)
  moreover have "round_double s = Finite (sgn s * int (round_nearest_even (nat s)))"
    using False assms by (simp add: round_double_def)
  moreover have "sgn s * int (round_nearest_even (nat s)) = int (round_nearest_even (nat s))"
  proof (cases "s = 0")
    case True
    then show ?thesis by (simp add: round_nearest_even_def)
  next
    case False
    with assms have "sgn s = 1" by (simp add: sgn_1_pos)
    then show ?thesis by simp
  qed
  ultimately show ?thesis by simp
qed

text \<open>
  Rounding commutes with scaling by a power of two, and an odd magnitude between
  \<open>2 ^ 53\<close> and \<open>2 ^ 54\<close> is a tie.
\<close>

lemma round_nearest_even_scale:
  "round_nearest_even (s * 2 ^ j) = round_nearest_even s * 2 ^ j"
proof (cases "s < 2 ^ 53")
  case True
  then have "round_nearest_even (s * 2 ^ j) = s * 2 ^ j"
    by (rule round_nearest_even_exact)
  moreover from True have "round_nearest_even s = s"
    by (simp add: round_nearest_even_def)
  ultimately show ?thesis by simp
next
  case False
  then have spos: "0 < s" by (cases "s = 0") simp_all
  define e where "e = bit_length s - 53"
  have "\<not> bit_length s \<le> 53" using False by (simp add: bit_length_le)
  then have e: "0 < e" and bl: "bit_length s = e + 53" by (simp_all add: e_def)
  have big: "\<not> s * 2 ^ j < 2 ^ 53"
  proof -
    have "s * 1 \<le> s * 2 ^ j" by (rule mult_le_mono2) simp
    then have "s \<le> s * 2 ^ j" by simp
    with False show ?thesis by linarith
  qed
  have e': "bit_length (s * 2 ^ j) - 53 = e + j"
    by (simp add: bit_length_mult_pow2 [OF spos] bl)
  have q': "(s * 2 ^ j) div 2 ^ (e + j) = s div 2 ^ e"
    by (simp add: power_add)
  have r': "(s * 2 ^ j) mod 2 ^ (e + j) = (s mod 2 ^ e) * 2 ^ j"
    by (simp add: power_add)
  have h': "(2::nat) ^ (e + j - 1) = 2 ^ (e - 1) * 2 ^ j"
    using e by (simp add: power_add [symmetric])
  have rne: "round_nearest_even s =
      (if s mod 2 ^ e < 2 ^ (e - 1) \<or> (s mod 2 ^ e = 2 ^ (e - 1) \<and> even (s div 2 ^ e))
       then s div 2 ^ e else s div 2 ^ e + 1) * 2 ^ e"
    using False by (simp add: round_nearest_even_def Let_def e_def)
  have "round_nearest_even (s * 2 ^ j) =
      (if (s mod 2 ^ e) * 2 ^ j < 2 ^ (e - 1) * 2 ^ j \<or>
          ((s mod 2 ^ e) * 2 ^ j = 2 ^ (e - 1) * 2 ^ j \<and> even (s div 2 ^ e))
       then s div 2 ^ e else s div 2 ^ e + 1) * 2 ^ (e + j)"
    unfolding round_nearest_even_def Let_def e' q' r' h' using big by simp
  also have "\<dots> =
      (if s mod 2 ^ e < 2 ^ (e - 1) \<or> (s mod 2 ^ e = 2 ^ (e - 1) \<and> even (s div 2 ^ e))
       then s div 2 ^ e else s div 2 ^ e + 1) * 2 ^ (e + j)"
    by simp
  also have "\<dots> = round_nearest_even s * 2 ^ j"
    unfolding rne by (simp add: power_add)
  finally show ?thesis .
qed

lemma round_nearest_even_odd:
  assumes "2 ^ 53 \<le> s" and "s < 2 ^ 54" and "odd s"
  shows "round_nearest_even s = (if even (s div 2) then s - 1 else s + 1)"
proof -
  have "bit_length s \<le> 54" using assms(2) by (simp add: bit_length_le)
  moreover have "\<not> bit_length s \<le> 53" using assms(1) by (simp add: bit_length_le)
  ultimately have e: "bit_length s - 53 = 1" by simp
  have r: "s mod 2 = 1" using assms(3) by (simp add: odd_iff_mod_2_eq_one)
  have s: "s = s div 2 * 2 + 1" using r by (metis div_mult_mod_eq)
  have big: "\<not> s < 2 ^ 53" using assms(1) by simp
  have "round_nearest_even s = (if even (s div 2) then s div 2 else s div 2 + 1) * 2"
    unfolding round_nearest_even_def Let_def e using big r by simp
  also have "\<dots> = (if even (s div 2) then s - 1 else s + 1)"
    using s by (auto simp add: algebra_simps)
  finally show ?thesis .
qed

lemma round_double_scaled:
  assumes "round_nearest_even s = r" and "r < 2 ^ 55"
  shows "round_double (int s * 2 ^ denorm_exp) = whole (int r)"
proof -
  have abs: "nat \<bar>int s * 2 ^ denorm_exp\<bar> = s * 2 ^ denorm_exp"
    by (simp add: abs_mult nat_mult_distrib nat_power_eq)
  have rne: "round_nearest_even (s * 2 ^ denorm_exp) = r * 2 ^ denorm_exp"
    by (simp add: round_nearest_even_scale assms(1))
  have "r * 2 ^ denorm_exp < 2 ^ 55 * 2 ^ denorm_exp"
    using assms(2) by simp
  also have "\<dots> = (2::nat) ^ (55 + denorm_exp)" by (simp add: power_add)
  also have "\<dots> < 2 ^ overflow_exp"
    by (rule power_strict_increasing) (simp_all add: denorm_exp_def overflow_exp_def)
  finally have small: "\<not> 2 ^ overflow_exp \<le> r * 2 ^ denorm_exp" by simp
  have "sgn (int s * 2 ^ denorm_exp) * int (r * 2 ^ denorm_exp) = int r * 2 ^ denorm_exp"
  proof (cases "s = 0")
    case True
    with assms(1) have "r = 0" by (simp add: round_nearest_even_def)
    with True show ?thesis by simp
  next
    case False
    then have "sgn (int s * 2 ^ denorm_exp) = 1" by (simp add: sgn_1_pos)
    then show ?thesis by simp
  qed
  then show ?thesis
    unfolding round_double_def Let_def abs rne whole_def using small by simp
qed

lemma dadd_whole_rounded:
  assumes "round_nearest_even (a + b) = r" and "r < 2 ^ 55"
  shows "dadd (whole (int a)) (whole (int b)) = whole (int r)"
proof -
  have "dadd (whole (int a)) (whole (int b)) = round_double (int (a + b) * 2 ^ denorm_exp)"
    by (simp add: whole_def distrib_right)
  then show ?thesis using round_double_scaled [OF assms] by simp
qed

section \<open>One round\<close>

lemma double_of_int_eq_whole: "\<bar>i\<bar> \<le> 2 ^ 53 \<Longrightarrow> double_of_int i = whole i"
  by (simp add: whole_def double_of_int_whole)

lemma zero_eq_whole: "Finite 0 = whole 0"
  by (simp add: whole_def)

lemma dadd_eq_whole: "\<bar>a + b\<bar> \<le> 2 ^ 53 \<Longrightarrow> dadd (whole a) (whole b) = whole (a + b)"
  unfolding whole_def by (rule dadd_whole)

lemma dgt_whole: "dgt (whole a) (whole b) \<longleftrightarrow> b < a"
  by (simp add: whole_def)

lemma whole_eq_iff: "whole a = whole b \<longleftrightarrow> a = b"
  by (simp add: whole_def)

lemmas whole_simps = double_of_int_eq_whole zero_eq_whole dadd_eq_whole dgt_whole whole_eq_iff

lemma tick_loop_unfold:
  "tick_loop W delta_t max_simulation_time (vehicles, timestamp) =
     (if is_all_get_target W vehicles then Some (Successed, vehicles, timestamp)
      else if is_any_collision W vehicles \<or> dgt timestamp max_simulation_time
           then Some (Failed, vehicles, timestamp)
      else tick_loop W delta_t max_simulation_time
             (excute_all W vehicles, dadd timestamp delta_t))"
  by (subst tick_loop.simps) simp

lemma test_world_simps:
  "load_file (test_world fate_of files) = files"
  "mcts_initialize (test_world fate_of files) cfg = None"
  "make_vehicles (test_world fate_of files) cfg = Inr (0, 0)"
  "reset (test_world fate_of files) (r, k) = (Suc r, 0)"
  "is_all_get_target (test_world fate_of files) (r, k) \<longleftrightarrow> fate_of r = Arrives \<and> 2 \<le> k"
  "is_any_collision (test_world fate_of files) (r, k) \<longleftrightarrow> fate_of r = Crashes \<and> 1 \<le> k"
  "excute_all (test_world fate_of files) (r, k) = (r, Suc k)"
  "replay_footprint (test_world fate_of files) v = v"
  by (simp_all add: test_world_def)

lemmas test_sim_simps = test_world_simps [of test_fates test_files, folded test_sim_def]

lemma tick_loop_outcome:
  assumes "tick_loop W delta_t max_simulation_time st = Some y"
  shows "(fst y = Successed \<longleftrightarrow> is_all_get_target W (fst (snd y))) \<and>
         (fst y = Failed \<longleftrightarrow> \<not> is_all_get_target W (fst (snd y)) \<and>
            (is_any_collision W (fst (snd y)) \<or> dgt (snd (snd y)) max_simulation_time))"
  by (rule tick_loop.raw_induct
        [where P = "\<lambda>W delta_t max_simulation_time st y.
           (fst y = Successed \<longleftrightarrow> is_all_get_target W (fst (snd y))) \<and>
           (fst y = Failed \<longleftrightarrow> \<not> is_all_get_target W (fst (snd y)) \<and>
              (is_any_collision W (fst (snd y)) \<or> dgt (snd (snd y)) max_simulation_time))",
         OF _ assms])
     (auto split: prod.splits if_splits)

lemma tick_loop_diverges:
  assumes start: "I st"
    and step: "\<And>vehicles timestamp. I (vehicles, timestamp) \<Longrightarrow>
       \<not> is_all_get_target W vehicles \<and> \<not> is_any_collision W vehicles \<and>
       \<not> dgt timestamp max_simulation_time \<and>
       I (excute_all W vehicles, dadd timestamp delta_t)"
  shows "tick_loop W delta_t max_simulation_time st = None"
proof (rule ccontr)
  assume "tick_loop W delta_t max_simulation_time st \<noteq> None"
  then obtain y where y: "tick_loop W delta_t max_simulation_time st = Some y"
    by auto
  have "W' = W \<longrightarrow> d' = delta_t \<longrightarrow> m' = max_simulation_time \<longrightarrow> \<not> I st'"
    if "tick_loop W' d' m' st' = Some y'" for W' d' m' st' y'
    by (rule tick_loop.raw_induct
          [where P = "\<lambda>W' d' m' st' y'.
             W' = W \<longrightarrow> d' = delta_t \<longrightarrow> m' = max_simulation_time \<longrightarrow> \<not> I st'", OF _ that])
       (auto split: prod.splits if_splits dest: step)
  from this [OF y] start show False by simp
qed

lemma tick_loop_continue:
  assumes "\<not> is_all_get_target W vehicles" and "\<not> is_any_collision W vehicles"
    and "\<not> dgt timestamp max_simulation_time"
  shows "tick_loop W delta_t max_simulation_time (vehicles, timestamp)
           = tick_loop W delta_t max_simulation_time
               (excute_all W vehicles, dadd timestamp delta_t)"
  using assms by (subst tick_loop_unfold) simp

lemma ceiling_bound:
  fixes d m :: int
  assumes "0 < d"
  shows "m < int (nat (\<lceil>real_of_int m / real_of_int d\<rceil> + 1)) * d"
proof -
  let ?c = "\<lceil>real_of_int m / real_of_int d\<rceil>"
  have d: "0 < real_of_int d" using assms by simp
  have "real_of_int m / real_of_int d \<le> real_of_int ?c" by (rule le_of_int_ceiling)
  then have "real_of_int m \<le> real_of_int ?c * real_of_int d"
    using pos_divide_le_eq [OF d] by blast
  then have le: "m \<le> ?c * d"
    by (metis of_int_le_iff of_int_mult)
  show ?thesis
  proof (cases "0 \<le> ?c + 1")
    case True
    then have "int (nat (?c + 1)) * d = ?c * d + d" by (simp add: algebra_simps)
    with le assms show ?thesis by linarith
  next
    case False
    then have "?c < 0" by linarith
    then have "?c * d < 0" using assms by (simp add: mult_neg_pos)
    with le have "m < 0" by simp
    have n0: "nat (?c + 1) = 0" using False by simp
    show ?thesis unfolding n0 using \<open>m < 0\<close> by simp
  qed
qed

lemma dgt_PInf: "\<not> dgt t PInf"
  by (cases t) simp_all

lemma timestamp_after_0: "timestamp_after delta_t 0 = Finite 0"
  by (simp add: timestamp_after_def)

lemma timestamp_after_Suc:
  "timestamp_after delta_t (Suc k) = dadd (timestamp_after delta_t k) delta_t"
  by (simp add: timestamp_after_def)

lemma tick_loop_stops_by:
  assumes "dgt (((\<lambda>t. dadd t delta_t) ^^ k) timestamp) max_simulation_time"
  shows "\<exists>n\<le>k. \<exists>oc. tick_loop W delta_t max_simulation_time (vehicles, timestamp)
           = Some (oc, (excute_all W ^^ n) vehicles, ((\<lambda>t. dadd t delta_t) ^^ n) timestamp)"
  using assms
proof (induction k arbitrary: vehicles timestamp)
  case 0
  then have "dgt timestamp max_simulation_time" by simp
  then have "\<exists>oc. tick_loop W delta_t max_simulation_time (vehicles, timestamp)
               = Some (oc, vehicles, timestamp)"
    by (simp add: tick_loop_unfold [of _ _ _ vehicles])
  then show ?case by simp
next
  case (Suc k)
  show ?case
  proof (cases "is_all_get_target W vehicles \<or> is_any_collision W vehicles
                  \<or> dgt timestamp max_simulation_time")
    case True
    then have "\<exists>oc. tick_loop W delta_t max_simulation_time (vehicles, timestamp)
                 = Some (oc, vehicles, timestamp)"
      by (auto simp add: tick_loop_unfold [of _ _ _ vehicles])
    then have "\<exists>oc. tick_loop W delta_t max_simulation_time (vehicles, timestamp)
                 = Some (oc, (excute_all W ^^ 0) vehicles, ((\<lambda>t. dadd t delta_t) ^^ 0) timestamp)"
      by simp
    then show ?thesis by blast
  next
    case False
    then have step: "tick_loop W delta_t max_simulation_time (vehicles, timestamp)
        = tick_loop W delta_t max_simulation_time
            (excute_all W vehicles, dadd timestamp delta_t)"
      by (intro tick_loop_continue) simp_all
    have "dgt (((\<lambda>t. dadd t delta_t) ^^ k) (dadd timestamp delta_t)) max_simulation_time"
      using Suc.prems by (simp only: funpow_Suc_right o_apply)
    from Suc.IH [OF this, of "excute_all W vehicles"]
    obtain n oc where n: "n \<le> k"
      and r: "tick_loop W delta_t max_simulation_time
                (excute_all W vehicles, dadd timestamp delta_t)
              = Some (oc, (excute_all W ^^ n) (excute_all W vehicles),
                      ((\<lambda>t. dadd t delta_t) ^^ n) (dadd timestamp delta_t))"
      by blast
    have "tick_loop W delta_t max_simulation_time (vehicles, timestamp)
            = Some (oc, (excute_all W ^^ Suc n) vehicles,
                    ((\<lambda>t. dadd t delta_t) ^^ Suc n) timestamp)"
      unfolding step r by (simp only: funpow_Suc_right o_apply)
    with n show ?thesis by (meson Suc_le_mono)
  qed
qed

lemma tick_loop_stops_by_timestamp:
  assumes "dgt (timestamp_after delta_t k) max_simulation_time"
  shows "\<exists>n\<le>k. \<exists>oc. tick_loop W delta_t max_simulation_time (vehicles, Finite 0)
           = Some (oc, (excute_all W ^^ n) vehicles, timestamp_after delta_t n)"
  using tick_loop_stops_by [where delta_t = delta_t and k = k and timestamp = "Finite 0"
      and max_simulation_time = max_simulation_time and W = W and vehicles = vehicles] assms
  by (simp add: timestamp_after_def)

lemma dgt_above_Finite:
  assumes "dgt t (Finite a)"
  shows "t = PInf \<or> (\<exists>b. t = Finite b \<and> a < b)"
  using assms by (cases t) simp_all

lemma timestamp_reaches_when_not_absorbed:
  assumes na: "\<forall>k. \<not> dgt (timestamp_after delta_t k) (Finite m) \<longrightarrow>
                 dgt (timestamp_after delta_t (Suc k)) (timestamp_after delta_t k)"
  shows "\<exists>k. dgt (timestamp_after delta_t k) (Finite m)"
proof (rule ccontr)
  assume "\<not> (\<exists>k. dgt (timestamp_after delta_t k) (Finite m))"
  then have never: "\<not> dgt (timestamp_after delta_t k) (Finite m)" for k by blast
  with na have grows: "dgt (timestamp_after delta_t (Suc k)) (timestamp_after delta_t k)" for k
    by blast
  have "\<exists>a. timestamp_after delta_t k = Finite a \<and> int k \<le> a" for k
  proof (induction k)
    case 0
    then show ?case by (simp add: timestamp_after_0)
  next
    case (Suc k)
    then obtain a where a: "timestamp_after delta_t k = Finite a" "int k \<le> a" by blast
    from grows [of k] a(1)
    have "timestamp_after delta_t (Suc k) = PInf \<or>
          (\<exists>b. timestamp_after delta_t (Suc k) = Finite b \<and> a < b)"
      by (simp add: dgt_above_Finite)
    moreover have "timestamp_after delta_t (Suc k) \<noteq> PInf"
      using never [of "Suc k"] by auto
    ultimately obtain b where "timestamp_after delta_t (Suc k) = Finite b" "a < b" by blast
    with a(2) show ?case by simp
  qed
  then obtain a where "timestamp_after delta_t (nat (m + 1)) = Finite a" "int (nat (m + 1)) \<le> a"
    by blast
  moreover have "m + 1 \<le> int (nat (m + 1))" by simp
  ultimately have "dgt (timestamp_after delta_t (nat (m + 1))) (Finite m)" by simp
  with never show False by blast
qed

lemma timestamp_after_lower:
  fixes u :: real
  assumes "0 < d" and u: "u = 1 - 1 / 2 ^ 53"
  shows "timestamp_after (Finite d) k = PInf \<or>
         (\<exists>a. timestamp_after (Finite d) k = Finite a \<and>
              real k * real_of_int d * u ^ k \<le> real_of_int a)"
proof (induction k)
  case 0
  then show ?case by (simp add: timestamp_after_0)
next
  case (Suc k)
  have u0: "0 \<le> u" and u1: "u \<le> 1" by (simp_all add: u)
  have uP: "u * 2 ^ 53 = 2 ^ 53 - 1" by (simp add: u)
  have rd: "0 \<le> real_of_int d" using assms(1) by simp
  from Suc show ?case
  proof
    assume "timestamp_after (Finite d) k = PInf"
    then show ?thesis by (simp add: timestamp_after_Suc)
  next
    assume "\<exists>a. timestamp_after (Finite d) k = Finite a \<and>
              real k * real_of_int d * u ^ k \<le> real_of_int a"
    then obtain a where a: "timestamp_after (Finite d) k = Finite a"
      and low: "real k * real_of_int d * u ^ k \<le> real_of_int a" by blast
    have "0 \<le> real k * real_of_int d * u ^ k" using rd u0 by simp
    with low have "0 \<le> real_of_int a" by linarith
    then have "0 \<le> a + d" using assms(1) by simp
    from round_double_lower [OF this]
    show ?thesis
    proof
      assume "round_double (a + d) = PInf"
      then show ?thesis by (simp add: timestamp_after_Suc a)
    next
      assume "\<exists>b. round_double (a + d) = Finite b \<and> (a + d) * (2 ^ 53 - 1) \<le> b * 2 ^ 53"
      then obtain b where b: "round_double (a + d) = Finite b"
        and bl: "(a + d) * (2 ^ 53 - 1) \<le> b * 2 ^ 53" by blast
      have "real_of_int ((a + d) * (2 ^ 53 - 1)) \<le> real_of_int (b * 2 ^ 53)"
        using bl by (simp only: of_int_le_iff)
      then have "(real_of_int a + real_of_int d) * (2 ^ 53 - 1) \<le> real_of_int b * 2 ^ 53"
        by simp
      then have "(real_of_int a + real_of_int d) * u * 2 ^ 53 \<le> real_of_int b * 2 ^ 53"
        by (simp only: mult.assoc uP)
      then have rb: "(real_of_int a + real_of_int d) * u \<le> real_of_int b"
        by (rule mult_right_le_imp_le) simp
      have "u ^ k \<le> 1" using u0 u1 by (rule power_le_one)
      then have "real_of_int d * u ^ k \<le> real_of_int d"
        using rd by (rule mult_left_le)
      moreover have "real (Suc k) * real_of_int d * u ^ k
                       = real k * real_of_int d * u ^ k + real_of_int d * u ^ k"
        by (simp add: algebra_simps)
      ultimately have "real (Suc k) * real_of_int d * u ^ k \<le> real_of_int a + real_of_int d"
        using low by linarith
      then have "real (Suc k) * real_of_int d * u ^ k * u
                   \<le> (real_of_int a + real_of_int d) * u"
        using u0 by (rule mult_right_mono)
      moreover have "real (Suc k) * real_of_int d * u ^ Suc k
                       = real (Suc k) * real_of_int d * u ^ k * u"
        by (simp only: power_Suc2 mult.assoc)
      ultimately have "real (Suc k) * real_of_int d * u ^ Suc k \<le> real_of_int b"
        using rb by linarith
      with b show ?thesis by (simp only: timestamp_after_Suc a dadd.simps) blast
    qed
  qed
qed

lemma timestamp_reaches_within_bound:
  fixes d m :: int
  assumes d: "0 < d"
    and N: "N = nat (\<lceil>real_of_int m / real_of_int d\<rceil> + 1)"
    and small: "N * N < 2 ^ 53"
  shows "dgt (timestamp_after (Finite d) N) (Finite m)"
proof -
  define u :: real where "u = 1 - 1 / 2 ^ 53"
  define w :: real where "w = 1 / 2 ^ 53"
  have uw: "u = 1 - w" and w0: "0 \<le> w" and w1: "w \<le> 1" and wP: "w * 2 ^ 53 = 1"
    by (simp_all add: u_def w_def)
  have over: "m < int N * d" unfolding N by (rule ceiling_bound [OF d])
  from timestamp_after_lower [OF d u_def, of N] show ?thesis
  proof
    assume "timestamp_after (Finite d) N = PInf"
    then show ?thesis by simp
  next
    assume "\<exists>a. timestamp_after (Finite d) N = Finite a \<and>
              real N * real_of_int d * u ^ N \<le> real_of_int a"
    then obtain a where a: "timestamp_after (Finite d) N = Finite a"
      and low: "real N * real_of_int d * u ^ N \<le> real_of_int a" by blast
    define X where "X = real N * real_of_int d"
    have X0: "0 \<le> X" using d by (simp add: X_def)
    have "real_of_int m < real_of_int (int N * d)" using over by (simp only: of_int_less_iff)
    then have mX: "real_of_int m < X" by (simp add: X_def)
    have "1 + real N * (- w) \<le> (1 + (- w)) ^ N"
      by (rule Bernoulli_inequality) (use w1 in simp)
    then have bern: "1 - real N * w \<le> u ^ N" by (simp add: uw)
    have "X * (1 - real N * w) \<le> X * u ^ N"
      using bern X0 by (rule mult_left_mono)
    with low have l2: "X * (1 - real N * w) \<le> real_of_int a"
      by (simp add: X_def)
    have "real (N * N) < 2 ^ 53"
      using small by (metis of_nat_less_numeral_power_cancel_iff)
    then have "real N * real N * w < 2 ^ 53 * w"
      using wP by (intro mult_strict_right_mono) simp_all
    then have sq: "real N * real N * w < 1" using wP by (simp add: mult.commute)
    have "m < a"
    proof (cases "N = 0")
      case True
      with over have "m < 0" by simp
      moreover from True a have "a = 0" by (simp add: timestamp_after_0)
      ultimately show ?thesis by simp
    next
      case False
      have c: "0 \<le> \<lceil>real_of_int m / real_of_int d\<rceil> + 1"
        using False N by (cases "0 \<le> \<lceil>real_of_int m / real_of_int d\<rceil> + 1") simp_all
      have "real_of_int m / real_of_int d \<le> real_of_int \<lceil>real_of_int m / real_of_int d\<rceil>"
        by (rule le_of_int_ceiling)
      also have "\<dots> = real N - 1" using c N by simp
      finally have "real_of_int m / real_of_int d \<le> real N - 1" .
      moreover have rd: "0 < real_of_int d" using d by simp
      ultimately have "real_of_int m \<le> (real N - 1) * real_of_int d"
        using pos_divide_le_eq [OF rd] by blast
      moreover have "(real N - 1) * real_of_int d = X - real_of_int d"
        by (simp add: X_def algebra_simps)
      ultimately have md: "real_of_int m + real_of_int d \<le> X" by linarith
      have "(real N * real N * w) * real_of_int d < 1 * real_of_int d"
        using sq rd by (rule mult_strict_right_mono)
      moreover have "X * (1 - real N * w) = X - (real N * real N * w) * real_of_int d"
        by (simp add: X_def algebra_simps)
      ultimately have "real_of_int m < X * (1 - real N * w)"
        using md by linarith
      with l2 have "real_of_int m < real_of_int a" by linarith
      then show ?thesis by simp
    qed
    with a show ?thesis by simp
  qed
qed

lemma timestamp_after_exact:
  assumes "\<forall>k<N. dadd (Finite (int k * d)) (Finite d) = Finite (int (Suc k) * d)"
  shows "k \<le> N \<Longrightarrow> timestamp_after (Finite d) k = Finite (int k * d)"
proof (induction k)
  case 0
  then show ?case by (simp add: timestamp_after_0)
next
  case (Suc k)
  then have "timestamp_after (Finite d) k = Finite (int k * d)" and "k < N" by simp_all
  with assms show ?case by (simp only: timestamp_after_Suc)
qed

lemma no_absorption:
  assumes "0 \<le> t" and "0 < d" and "t < d * (2 ^ 53 - 1)"
  shows "dgt (dadd (Finite t) (Finite d)) (Finite t)"
proof -
  have "0 \<le> t + d" using assms by simp
  from round_double_lower [OF this] show ?thesis
  proof
    assume "round_double (t + d) = PInf"
    then show ?thesis by simp
  next
    assume "\<exists>a. round_double (t + d) = Finite a \<and> (t + d) * (2 ^ 53 - 1) \<le> a * 2 ^ 53"
    then obtain a where a: "round_double (t + d) = Finite a"
      and low: "(t + d) * (2 ^ 53 - 1) \<le> a * 2 ^ 53" by blast
    have "(t + d) * (2 ^ 53 - 1) = t * 2 ^ 53 + (d * (2 ^ 53 - 1) - t)"
      by (simp add: algebra_simps)
    with low assms(3) have "t * 2 ^ 53 < a * 2 ^ 53" by linarith
    then have "t < a" by simp
    with a show ?thesis by simp
  qed
qed

lemma timestamp_after_nonneg:
  assumes "0 \<le> d"
  shows "timestamp_after (Finite d) k = PInf \<or>
         (\<exists>a\<ge>0. timestamp_after (Finite d) k = Finite a)"
proof (induction k)
  case 0
  then show ?case by (simp add: timestamp_after_0)
next
  case (Suc k)
  then show ?case
  proof
    assume "timestamp_after (Finite d) k = PInf"
    then show ?thesis by (simp add: timestamp_after_Suc)
  next
    assume "\<exists>a\<ge>0. timestamp_after (Finite d) k = Finite a"
    then obtain a where a: "0 \<le> a" "timestamp_after (Finite d) k = Finite a" by blast
    then have "0 \<le> a + d" using assms by simp
    from round_double_lower [OF this] show ?thesis
    proof
      assume "round_double (a + d) = PInf"
      then show ?thesis by (simp add: timestamp_after_Suc a)
    next
      assume "\<exists>b. round_double (a + d) = Finite b \<and> (a + d) * (2 ^ 53 - 1) \<le> b * 2 ^ 53"
      then obtain b where b: "round_double (a + d) = Finite b"
        and bl: "(a + d) * (2 ^ 53 - 1) \<le> b * 2 ^ 53" by blast
      have "0 \<le> (a + d) * (2 ^ 53 - 1)" using \<open>0 \<le> a + d\<close> by simp
      with bl have "0 \<le> b * 2 ^ 53" by linarith
      then have "0 \<le> b" by (simp add: zero_le_mult_iff)
      with b show ?thesis by (simp add: timestamp_after_Suc a)
    qed
  qed
qed

lemma not_absorbed_below_ceiling:
  assumes "0 < d" and "m < d * (2 ^ 53 - 1)"
  shows "\<forall>k. \<not> dgt (timestamp_after (Finite d) k) (Finite m) \<longrightarrow>
             dgt (timestamp_after (Finite d) (Suc k)) (timestamp_after (Finite d) k)"
proof (intro allI impI)
  fix k assume below: "\<not> dgt (timestamp_after (Finite d) k) (Finite m)"
  have "0 \<le> d" using assms(1) by simp
  from timestamp_after_nonneg [OF this, of k]
  show "dgt (timestamp_after (Finite d) (Suc k)) (timestamp_after (Finite d) k)"
  proof
    assume "timestamp_after (Finite d) k = PInf"
    with below show ?thesis by simp
  next
    assume "\<exists>a\<ge>0. timestamp_after (Finite d) k = Finite a"
    then obtain a where a: "0 \<le> a" "timestamp_after (Finite d) k = Finite a" by blast
    with below have "a \<le> m" by simp
    with assms(2) have "a < d * (2 ^ 53 - 1)" by simp
    from no_absorption [OF a(1) assms(1) this] a(2)
    show ?thesis by (simp only: timestamp_after_Suc)
  qed
qed

lemma tick_loop_runs:
  assumes "\<And>k. k < n \<Longrightarrow>
      \<not> is_all_get_target W ((excute_all W ^^ k) vehicles) \<and>
      \<not> is_any_collision W ((excute_all W ^^ k) vehicles) \<and>
      \<not> dgt (((\<lambda>t. dadd t delta_t) ^^ k) timestamp) max_simulation_time"
  shows "tick_loop W delta_t max_simulation_time (vehicles, timestamp)
           = tick_loop W delta_t max_simulation_time
               ((excute_all W ^^ n) vehicles, ((\<lambda>t. dadd t delta_t) ^^ n) timestamp)"
  using assms
proof (induction n)
  case 0
  then show ?case by simp
next
  case (Suc n)
  have "tick_loop W delta_t max_simulation_time (vehicles, timestamp)
          = tick_loop W delta_t max_simulation_time
              ((excute_all W ^^ n) vehicles, ((\<lambda>t. dadd t delta_t) ^^ n) timestamp)"
    using Suc.prems by (intro Suc.IH) simp
  also have "\<dots> = tick_loop W delta_t max_simulation_time
              (excute_all W ((excute_all W ^^ n) vehicles),
               dadd (((\<lambda>t. dadd t delta_t) ^^ n) timestamp) delta_t)"
    using Suc.prems [of n] by (intro tick_loop_continue) simp_all
  finally show ?case by simp
qed

lemma test_sim_ticks: "(excute_all test_sim ^^ k) (r, j) = (r, j + k)"
  by (induction k) (simp_all add: test_sim_simps)

text \<open>
  A step of 5 towards a ceiling of \<open>2 ^ 54 - 2\<close>: the sums are exact up to \<open>2 ^ 53 - 2\<close>,
  and from there on every addition of 5 is a tie that rounds to an addition of 4.
\<close>

lemma slow_steps:
  assumes "k \<le> 3602879701896398"
  shows "timestamp_after (whole 5) k
           = whole (int (if k \<le> 1801439850948198 then 5 * k
                         else 2 ^ 53 + 4 + 4 * (k - 1801439850948199)))"
  using assms
proof (induction k)
  case 0
  then show ?case by (simp add: timestamp_after_0 zero_eq_whole)
next
  case (Suc k)
  let ?a = "if k \<le> 1801439850948198 then 5 * k else 2 ^ 53 + 4 + 4 * (k - 1801439850948199)"
  have IH: "timestamp_after (whole 5) k = whole (int ?a)"
    using Suc by simp
  have step: "timestamp_after (whole 5) (Suc k) = dadd (whole (int ?a)) (whole (int 5))"
    by (simp add: timestamp_after_Suc IH)
  consider (exact) "Suc k \<le> 1801439850948198"
    | (first) "k = 1801439850948198"
    | (later) "1801439850948199 \<le> k"
    by linarith
  then show ?case
  proof cases
    case exact
    then have a: "?a = 5 * k" by simp
    have "5 * k + 5 < (2::nat) ^ 53" using exact by simp
    then have "round_nearest_even (5 * k + 5) = 5 * k + 5"
      by (simp add: round_nearest_even_def)
    moreover have "5 * k + 5 < (2::nat) ^ 55" using exact by simp
    ultimately have "dadd (whole (int (5 * k))) (whole (int 5)) = whole (int (5 * k + 5))"
      by (rule dadd_whole_rounded)
    with exact show ?thesis unfolding step a by (simp add: whole_eq_iff)
  next
    case first
    then have a: "?a = 2 ^ 53 - 2" by simp
    have "round_nearest_even (2 ^ 53 + 3)
            = (if even (((2::nat) ^ 53 + 3) div 2) then 2 ^ 53 + 3 - 1 else 2 ^ 53 + 3 + 1)"
      by (rule round_nearest_even_odd) simp_all
    then have "round_nearest_even ((2 ^ 53 - 2) + 5) = 2 ^ 53 + 4" by simp
    moreover have "(2::nat) ^ 53 + 4 < 2 ^ 55" by simp
    ultimately have "dadd (whole (int (2 ^ 53 - 2))) (whole (int 5)) = whole (int (2 ^ 53 + 4))"
      by (rule dadd_whole_rounded)
    with first show ?thesis unfolding step a by (simp add: whole_eq_iff)
  next
    case later
    define i where "i = k - 1801439850948199"
    have k: "k = 1801439850948199 + i" using later by (simp add: i_def)
    have i: "i \<le> 1801439850948198" using Suc.prems k by simp
    have a: "?a = 2 ^ 53 + 4 + 4 * i" using later by (simp add: i_def)
    let ?s = "(2::nat) ^ 53 + 4 + 4 * i + 5"
    have s2: "?s = 2 * (2 ^ 52 + 4 + 2 * i) + 1" by simp
    have half: "?s div 2 = 2 ^ 52 + 4 + 2 * i" unfolding s2 by simp
    have "round_nearest_even ?s = (if even (?s div 2) then ?s - 1 else ?s + 1)"
    proof (rule round_nearest_even_odd)
      show "2 ^ 53 \<le> ?s" by simp
      show "?s < 2 ^ 54" using i by simp
      show "odd ?s" unfolding s2 by simp
    qed
    moreover have "even (?s div 2)" unfolding half by simp
    ultimately have "round_nearest_even ?s = 2 ^ 53 + 4 + 4 * (i + 1)" by simp
    moreover have "(2::nat) ^ 53 + 4 + 4 * (i + 1) < 2 ^ 55" using i by simp
    ultimately have "dadd (whole (int (2 ^ 53 + 4 + 4 * i))) (whole (int 5))
                       = whole (int (2 ^ 53 + 4 + 4 * (i + 1)))"
      by (rule dadd_whole_rounded)
    moreover have "(if Suc k \<le> 1801439850948198 then 5 * Suc k
                    else 2 ^ 53 + 4 + 4 * (Suc k - 1801439850948199))
                   = 2 ^ 53 + 4 + 4 * (i + 1)"
      using k by simp
    ultimately show ?thesis unfolding step a by (simp add: whole_eq_iff)
  qed
qed

lemma slow_steps_below:
  assumes "k \<le> 3602879701896398"
  shows "\<not> dgt (timestamp_after (whole 5) k) (whole (2 ^ 54 - 2))"
proof -
  let ?a = "if k \<le> 1801439850948198 then 5 * k else 2 ^ 53 + 4 + 4 * (k - 1801439850948199)"
  have "?a \<le> 18014398509481982"
  proof (cases "k \<le> 1801439850948198")
    case True
    then show ?thesis by simp
  next
    case False
    define i where "i = k - 1801439850948199"
    have k: "k = 1801439850948199 + i" using False by (simp add: i_def)
    with assms have "i \<le> 1801439850948199" by simp
    with False show ?thesis unfolding k by simp
  qed
  then have "int ?a \<le> 2 ^ 54 - 2" by simp
  then show ?thesis
    unfolding slow_steps [OF assms] dgt_whole by simp
qed

lemma slow_round_still_running:
  "tick_loop test_sim (whole 5) (whole (2 ^ 54 - 2)) ((2, 0), Finite 0)
     = tick_loop test_sim (whole 5) (whole (2 ^ 54 - 2))
         ((2, 3602879701896398), timestamp_after (whole 5) 3602879701896398)"
proof -
  have "tick_loop test_sim (whole 5) (whole (2 ^ 54 - 2)) ((2, 0), Finite 0)
     = tick_loop test_sim (whole 5) (whole (2 ^ 54 - 2))
         ((excute_all test_sim ^^ 3602879701896398) (2, 0),
          ((\<lambda>t. dadd t (whole 5)) ^^ 3602879701896398) (Finite 0))"
  proof (rule tick_loop_runs)
    fix k :: nat assume "k < 3602879701896398"
    then have "\<not> dgt (timestamp_after (whole 5) k) (whole (2 ^ 54 - 2))"
      by (intro slow_steps_below) simp
    then show "\<not> is_all_get_target test_sim ((excute_all test_sim ^^ k) (2, 0)) \<and>
       \<not> is_any_collision test_sim ((excute_all test_sim ^^ k) (2, 0)) \<and>
       \<not> dgt (((\<lambda>t. dadd t (whole 5)) ^^ k) (Finite 0)) (whole (2 ^ 54 - 2))"
      by (simp add: test_sim_ticks test_sim_simps test_fates_def timestamp_after_def)
  qed
  then show ?thesis
    by (simp add: test_sim_ticks timestamp_after_def)
qed

lemma slow_round_not_absorbed:
  "\<forall>k. \<not> dgt (timestamp_after (Finite (5 * 2 ^ denorm_exp)) k)
              (Finite ((2 ^ 54 - 2) * 2 ^ denorm_exp)) \<longrightarrow>
       dgt (timestamp_after (Finite (5 * 2 ^ denorm_exp)) (Suc k))
           (timestamp_after (Finite (5 * 2 ^ denorm_exp)) k)"
proof (rule not_absorbed_below_ceiling)
  show "(0::int) < 5 * 2 ^ denorm_exp" by simp
  have "(2::int) ^ 54 - 2 < 5 * (2 ^ 53 - 1)" by simp
  then have "((2::int) ^ 54 - 2) * 2 ^ denorm_exp < 5 * (2 ^ 53 - 1) * 2 ^ denorm_exp"
    by (rule mult_strict_right_mono) simp
  then show "((2::int) ^ 54 - 2) * 2 ^ denorm_exp < 5 * 2 ^ denorm_exp * (2 ^ 53 - 1)"
    by (simp only: mult.assoc mult.commute [of "2 ^ denorm_exp"])
qed

lemma slow_round_bound:
  "nat (\<lceil>real_of_int ((2 ^ 54 - 2) * 2 ^ denorm_exp) / real_of_int (5 * 2 ^ denorm_exp)\<rceil> + 1)
     = 3602879701896398"
  by simp

section \<open>All rounds and the summary\<close>

declare rounds_loop.simps [simp del]

lemma test_round:
  "tick_loop test_sim (whole 1) (whole 3) ((r, 0), Finite 0) =
     (case test_fates r of
        Arrives \<Rightarrow> Some (Successed, (r, 2), whole 2)
      | Crashes \<Rightarrow> Some (Failed, (r, 1), whole 1)
      | Wanders \<Rightarrow> Some (Failed, (r, 4), whole 4))"
  by (cases "test_fates r") (simp_all add: tick_loop_unfold test_sim_simps whole_simps)

lemma test_initialize:
  "initialize test_sim (test_config d m) = Inr (d, m, (0, 0))"
  by (simp add: initialize_def get_double_def get_int_def test_config_def test_sim_simps)

lemma test_rounds_2:
  "rounds_loop test_sim (whole 1) (whole 3) 2 (0, 0, [], (0, 0))
     = Some (0, [Failed, Failed], (2, 4))"
  by (simp add: rounds_loop.simps test_sim_simps test_round test_fates_def)

lemma test_rounds_3:
  "rounds_loop test_sim (whole 1) (whole 3) 3 (0, 0, [], (0, 0))
     = Some (1, [Failed, Failed, Successed], (3, 2))"
  by (simp add: rounds_loop.simps test_sim_simps test_round test_fates_def)

lemma scast_small: "(scast (0 :: int32) :: uint64) = 0" "(scast (2 :: int32) :: uint64) = 2"
  "(scast (3 :: int32) :: uint64) = 3" "(scast (5 :: int32) :: uint64) = 5"
  by simp_all

lemma u64_to_double_small: "uint q \<le> 2 ^ 53 \<Longrightarrow> u64_to_double q = whole (uint q)"
  by (simp add: u64_to_double_def double_of_int_eq_whole)

lemma test_run_2:
  "run test_sim 2 ''unprotected_left_turn.yaml'' = Some (Summary [Failed, Failed] 0 2 (whole 0))"
  by (simp add: run_def test_sim_simps test_files_def test_initialize whole_simps
        test_rounds_2 succeed_rate_def u64_to_double_small)

lemma test_run_3:
  "run test_sim 3 ''unprotected_left_turn.yaml''
     = Some (Summary [Failed, Failed, Successed] 1 3 (whole 33))"
  by (simp add: run_def test_sim_simps test_files_def test_initialize whole_simps
        test_rounds_3 succeed_rate_def u64_to_double_small)

lemma test_run_0:
  "run test_sim 0 ''unprotected_left_turn.yaml'' = Some (DivisionByZero [] 0)"
  by (simp add: run_def test_sim_simps test_files_def test_initialize whole_simps
        rounds_loop.simps succeed_rate_def)

lemma test_run_no_delta_t:
  "run test_sim 5 ''no_delta_t.yaml'' = Some (Uncaught (BadConversion ''delta_t''))"
  by (simp add: run_def test_sim_simps test_files_def initialize_def get_double_def)

lemma test_run_garbled:
  "run test_sim 5 ''garbled.yaml'' = Some (ParseError ParserException)"
  by (simp add: run_def test_sim_simps test_files_def)

lemma unat_succ:
  fixes x n :: uint64
  assumes "unat x < unat n"
  shows "unat (x + 1) = Suc (unat x)"
proof -
  have "unat n < 2 ^ LENGTH(64)" by (rule unsigned_less)
  with assms have "unat x + unat (1 :: uint64) < 2 ^ LENGTH(64)" by simp
  then have "unat (x + 1) = unat x + unat (1 :: uint64)"
    by (rule unat_add_lem [THEN iffD1])
  then show ?thesis by simp
qed

lemma rounds_loop_played:
  assumes "rounds_loop W delta_t max_simulation_time n (iter, succeed_count, logged, vehicles)
             = Some (succeed_count', logged', vehicles')"
    and "iter \<le> n"
  shows "\<exists>rs. rounds_played W delta_t max_simulation_time vehicles rs \<and>
           length rs = unat n - unat iter \<and>
           logged' = logged @ map fst rs \<and>
           succeed_count' = succeed_count
              + of_nat (length (filter (\<lambda>r. is_all_get_target W (fst (snd r))) rs))"
  using assms
proof (induction W delta_t max_simulation_time n "(iter, succeed_count, logged, vehicles)"
         arbitrary: iter succeed_count logged vehicles rule: rounds_loop.induct)
  case (1 W delta_t max_simulation_time n iter succeed_count logged vehicles)
  show ?case
  proof (cases "iter < n")
    case False
    with "1.prems"(2) have "iter = n" by simp
    with "1.prems"(1) have "succeed_count' = succeed_count" "logged' = logged"
      by (simp_all add: rounds_loop.simps)
    with \<open>iter = n\<close> show ?thesis
      by (intro exI [of _ "[]"]) simp
  next
    case True
    then have lt: "unat iter < unat n" by (simp add: word_less_nat_alt)
    obtain oc vs t where tick:
      "tick_loop W delta_t max_simulation_time (reset W vehicles, Finite 0) = Some (oc, vs, t)"
      using "1.prems"(1) True
      by (subst (asm) rounds_loop.simps) (auto split: option.splits)
    have rec: "rounds_loop W delta_t max_simulation_time n
        (iter + 1, (if oc = Successed then succeed_count + 1 else succeed_count),
         logged @ [oc], replay_footprint W vs) = Some (succeed_count', logged', vehicles')"
      using "1.prems"(1) True tick by (subst (asm) rounds_loop.simps) simp
    have iter': "unat (iter + 1) = Suc (unat iter)" using lt by (rule unat_succ)
    have le: "iter + 1 \<le> n"
      using lt iter' by (simp add: word_le_nat_alt)
    from "1.hyps" [OF True tick refl refl rec le]
    obtain rs where rs: "rounds_played W delta_t max_simulation_time (replay_footprint W vs) rs"
      and len: "length rs = unat n - unat (iter + 1)"
      and lg: "logged' = (logged @ [oc]) @ map fst rs"
      and sc: "succeed_count' = (if oc = Successed then succeed_count + 1 else succeed_count)
                 + of_nat (length (filter (\<lambda>r. is_all_get_target W (fst (snd r))) rs))"
      by blast
    have oc: "oc = Successed \<longleftrightarrow> is_all_get_target W vs"
      using tick_loop_outcome [OF tick] by simp
    let ?rs = "(oc, vs, t) # rs"
    have "rounds_played W delta_t max_simulation_time vehicles ?rs"
      using tick rs by simp
    moreover have "length ?rs = unat n - unat iter"
      using len iter' lt by simp
    moreover have "logged' = logged @ map fst ?rs"
      using lg by simp
    moreover have "succeed_count' = succeed_count
              + of_nat (length (filter (\<lambda>r. is_all_get_target W (fst (snd r))) ?rs))"
      using sc oc by simp
    ultimately show ?thesis by blast
  qed
qed

lemma rounds_played_nth:
  assumes "rounds_played W delta_t max_simulation_time vehicles rs" and "i < length rs"
  shows "tick_loop W delta_t max_simulation_time
           (reset W (if i = 0 then vehicles
                     else replay_footprint W (fst (snd (rs ! (i - 1))))), Finite 0)
         = Some (rs ! i)"
  using assms
proof (induction rs arbitrary: vehicles i)
  case Nil
  then show ?case by simp
next
  case (Cons r rs)
  show ?case
  proof (cases i)
    case 0
    with Cons.prems show ?thesis by simp
  next
    case (Suc j)
    with Cons.prems have j: "j < length rs"
      and played: "rounds_played W delta_t max_simulation_time
                     (replay_footprint W (fst (snd r))) rs" by simp_all
    from Cons.IH [OF played j] Suc show ?thesis
      by (cases j) simp_all
  qed
qed

lemma rounds_played_outcomes:
  assumes "rounds_played W delta_t max_simulation_time vehicles rs"
  shows "filter (\<lambda>r. is_all_get_target W (fst (snd r))) rs
           = filter (\<lambda>r. fst r = Successed) rs"
  using assms
proof (induction rs arbitrary: vehicles)
  case Nil
  then show ?case by simp
next
  case (Cons r rs)
  then have "tick_loop W delta_t max_simulation_time (reset W vehicles, Finite 0) = Some r"
    and rest: "rounds_played W delta_t max_simulation_time (replay_footprint W (fst (snd r))) rs"
    by simp_all
  from tick_loop_outcome [OF this(1)] Cons.IH [OF rest] show ?case by simp
qed

lemma run_rounds:
  assumes "run W n path = Some res"
    and "res = Summary logged succeed_count n' rate \<or> res = DivisionByZero logged succeed_count"
  obtains cfg delta_t max_simulation_time vehicles vehicles' where
    "load_file W path = Inr cfg"
    and "initialize W cfg = Inr (delta_t, max_simulation_time, vehicles)"
    and "rounds_loop W delta_t max_simulation_time (scast n) (0, 0, [], vehicles)
           = Some (succeed_count, logged, vehicles')"
    and "res = Summary logged succeed_count n' rate \<longrightarrow> succeed_rate succeed_count n = Some rate"
  using assms unfolding run_def
  by (auto split: sum.splits option.splits prod.splits)

lemma rate_le_100:
  fixes succeed_count divisor :: uint64
  assumes "unat succeed_count \<le> unat divisor" and "divisor \<noteq> 0"
  shows "unat ((100 * succeed_count) div divisor) \<le> 100"
proof -
  have pos: "0 < unat divisor"
    using assms(2) by (simp add: unat_gt_0)
  have "unat (100 * succeed_count) \<le> unat (100 :: uint64) * unat succeed_count"
    by (simp add: unat_word_ariths)
  also have "\<dots> \<le> 100 * unat divisor"
    using assms(1) by simp
  finally have "unat (100 * succeed_count) div unat divisor \<le> 100 * unat divisor div unat divisor"
    by (rule div_le_mono)
  also have "\<dots> = 100" using pos by simp
  finally show ?thesis by (simp add: unat_div)
qed

lemma dval_whole: "dval (whole i) = Some (real_of_int i)"
  by (simp add: whole_def)

lemma parse_opts_snoc_l:
  "parse_opts stoi vars (opts @ [Opt_l name]) =
     (case parse_opts stoi vars opts of
        Inl x \<Rightarrow> Inl x
      | Inr vars' \<Rightarrow> Inr (vars'\<lparr>log_level := name\<rparr>))"
  by (induction stoi vars opts rule: parse_opts.induct) (simp_all split: option.splits)

lemma dadd_zero_zero: "dadd (Finite 0) (Finite 0) = Finite 0"
  by (simp add: round_double_def round_nearest_even_def)

lemma test_zero_step_wanders:
  assumes "test_fates r = Wanders"
  shows "tick_loop test_sim (Finite 0) (whole 3) ((r, 0), Finite 0) = None"
proof (rule tick_loop_diverges
         [where I = "\<lambda>st :: (nat \<times> nat) \<times> double. fst (fst st) = r \<and> snd st = Finite 0"])
  show "fst (fst ((r, 0 :: nat), Finite 0)) = r \<and> snd ((r, 0 :: nat), Finite 0) = Finite 0"
    by simp
next
  fix vehicles :: "nat \<times> nat" and timestamp :: double
  assume "fst (fst (vehicles, timestamp)) = r \<and> snd (vehicles, timestamp) = Finite 0"
  then obtain k where "vehicles = (r, k)" and "timestamp = Finite 0"
    by (cases vehicles) auto
  then show "\<not> is_all_get_target test_sim vehicles \<and> \<not> is_any_collision test_sim vehicles \<and>
       \<not> dgt timestamp (whole 3) \<and>
       fst (fst (excute_all test_sim vehicles, dadd timestamp (Finite 0))) = r \<and>
       snd (excute_all test_sim vehicles, dadd timestamp (Finite 0)) = Finite 0"
    using assms by (simp add: test_sim_simps dadd_zero_zero whole_def del: dadd.simps)
qed

lemma test_zero_step_crashes:
  assumes "test_fates r = Crashes"
  shows "tick_loop test_sim (Finite 0) (whole 3) ((r, 0), Finite 0)
           = Some (Failed, (r, 1), Finite 0)"
  using assms
  by (simp add: tick_loop_unfold test_sim_simps dadd_zero_zero whole_def del: dadd.simps)

section \<open>The claims\<close>

subsection \<open>C1: zero rounds\<close>

text \<open>
  Claim C1 asks that a run configured with 0 rounds reports a configuration error and
  computes no success rate, the division being guarded against a zero divisor. The code
  has no such guard. With \<open>--rounds 0\<close> and a good configuration file, \<open>main\<close> passes 0
  to \<open>run\<close>, which plays no round and then divides \<open>100 * 0\<close> by \<open>0\<close> in \<open>uint64_t\<close>:
  undefined behaviour, and no configuration error anywhere.
\<close>

theorem zero_rounds_divide_by_zero:
  "main test_sim test_stoi [Opt_r ''0''] = Inr (info, Some (DivisionByZero [] 0)) \<and>
   succeed_rate 0 0 = None"
  by (simp add: main_def test_stoi_def main_defaults_def subscript_def LOG_LEVEL_DICT_def
        test_run_0 succeed_rate_def)

subsection \<open>C2: the outcome of a round\<close>

text \<open>
  Claim C2 says that every round that starts ends in exactly one of Succeeded, Collided
  and TimedOut, never in an outcome that merges collision and timeout. Two runs of two
  rounds refute it. In the first, round 1 ends in a collision and round 2 by the time
  ceiling, states that the specification's test tells apart, and the code logs the same
  \<open>Failed\<close> for both. In the second, the step is 0 and round 2 never ends.
\<close>

theorem rounds_merge_failures_or_never_end:
  "run test_sim 2 ''unprotected_left_turn.yaml'' = Some (Summary [Failed, Failed] 0 2 (whole 0)) \<and>
   spec_termination test_sim (whole 3) ((1, 1), whole 1) = Some Collided \<and>
   spec_termination test_sim (whole 3) ((2, 4), whole 4) = Some TimedOut \<and>
   run test_sim 2 ''zero_step.yaml'' = None"
proof -
  have "rounds_loop test_sim (Finite 0) (whole 3) 2 (0, 0, [], (0, 0)) = None"
    by (simp add: rounds_loop.simps test_sim_simps test_fates_def
          test_zero_step_crashes test_zero_step_wanders)
  then have "run test_sim 2 ''zero_step.yaml'' = None"
    by (simp add: run_def test_sim_simps test_files_def test_initialize whole_simps)
  then show ?thesis
    by (simp add: test_run_2 spec_termination_def test_sim_simps test_fates_def whole_simps)
qed

text \<open>
  Claim C2 as amended: every round whose loop returns ends in exactly one of the two
  outcomes \<open>Successed\<close> and \<open>Failed\<close>. It is \<open>Successed\<close> exactly when all vehicles are at
  their target in the final state, and \<open>Failed\<close> exactly when they are not and there is a
  collision or the timestamp is above the ceiling; collision and timeout share the one
  outcome \<open>Failed\<close>.
\<close>

theorem round_ends_successed_or_failed:
  assumes "tick_loop W delta_t max_simulation_time st = Some (oc, vehicles', timestamp')"
  shows "(oc = Successed \<longleftrightarrow> is_all_get_target W vehicles') \<and>
         (oc = Failed \<longleftrightarrow> \<not> is_all_get_target W vehicles' \<and>
            (is_any_collision W vehicles' \<or> dgt timestamp' max_simulation_time))"
  using tick_loop_outcome [OF assms] by simp

theorem round_ends_successed_or_failed_witness:
  "tick_loop test_sim (whole 1) (whole 3) ((3, 0), Finite 0) = Some (Successed, (3, 2), whole 2) \<and>
   is_all_get_target test_sim (3, 2) \<and>
   tick_loop test_sim (whole 1) (whole 3) ((2, 0), Finite 0) = Some (Failed, (2, 4), whole 4) \<and>
   \<not> is_all_get_target test_sim (2, 4) \<and> dgt (whole 4) (whole 3)"
proof -
  have a: "tick_loop test_sim (whole 1) (whole 3) ((3, 0), Finite 0)
             = Some (Successed, (3, 2), whole 2)"
    by (simp add: test_round test_fates_def)
  have b: "tick_loop test_sim (whole 1) (whole 3) ((2, 0), Finite 0)
             = Some (Failed, (2, 4), whole 4)"
    by (simp add: test_round test_fates_def)
  show ?thesis
    using a b round_ends_successed_or_failed [OF a] round_ends_successed_or_failed [OF b]
    by (simp add: test_sim_simps test_fates_def dgt_whole)
qed

subsection \<open>C3: the termination test of a tick\<close>

text \<open>
  Claim C3 says the test of each tick ends the round as Succeeded, else Collided, else
  TimedOut, else lets it continue. The code has one outcome for the last two: on a state
  with a collision and on a state past the ceiling, which the specification's test
  names Collided and TimedOut, the loop returns the same \<open>Failed\<close>.
\<close>

theorem collision_and_timeout_same_outcome:
  "spec_termination test_sim (whole 3) ((1, 1), whole 1) = Some Collided \<and>
   spec_termination test_sim (whole 3) ((2, 4), whole 4) = Some TimedOut \<and>
   tick_loop test_sim (whole 1) (whole 3) ((1, 1), whole 1) = Some (Failed, (1, 1), whole 1) \<and>
   tick_loop test_sim (whole 1) (whole 3) ((2, 4), whole 4) = Some (Failed, (2, 4), whole 4)"
  by (simp add: spec_termination_def tick_loop_unfold test_sim_simps test_fates_def whole_simps)

text \<open>
  Claim C3 as amended: at every tick, if all vehicles are at their target the round
  ends \<open>Successed\<close>, whatever else holds; otherwise, if any vehicles collide or the
  timestamp is above the ceiling, the round ends \<open>Failed\<close>; otherwise the round continues
  with the vehicles after one more tick and the timestamp advanced by \<open>delta_t\<close>.
\<close>

theorem tick_termination_check:
  "(is_all_get_target W vehicles \<longrightarrow>
      tick_loop W delta_t max_simulation_time (vehicles, timestamp)
        = Some (Successed, vehicles, timestamp)) \<and>
   (\<not> is_all_get_target W vehicles \<and>
    (is_any_collision W vehicles \<or> dgt timestamp max_simulation_time) \<longrightarrow>
      tick_loop W delta_t max_simulation_time (vehicles, timestamp)
        = Some (Failed, vehicles, timestamp)) \<and>
   (\<not> is_all_get_target W vehicles \<and> \<not> is_any_collision W vehicles \<and>
    \<not> dgt timestamp max_simulation_time \<longrightarrow>
      tick_loop W delta_t max_simulation_time (vehicles, timestamp)
        = tick_loop W delta_t max_simulation_time
            (excute_all W vehicles, dadd timestamp delta_t))"
  by (simp add: tick_loop_unfold [of W delta_t max_simulation_time vehicles timestamp])

theorem tick_termination_check_witness:
  "is_all_get_target test_sim (3, 2) \<and>
   tick_loop test_sim (whole 1) (whole 3) ((3, 2), whole 5) = Some (Successed, (3, 2), whole 5) \<and>
   \<not> is_all_get_target test_sim (1, 1) \<and> is_any_collision test_sim (1, 1) \<and>
   tick_loop test_sim (whole 1) (whole 3) ((1, 1), whole 1) = Some (Failed, (1, 1), whole 1) \<and>
   \<not> is_all_get_target test_sim (2, 4) \<and> dgt (whole 4) (whole 3) \<and>
   tick_loop test_sim (whole 1) (whole 3) ((2, 4), whole 4) = Some (Failed, (2, 4), whole 4) \<and>
   \<not> is_all_get_target test_sim (2, 3) \<and> \<not> is_any_collision test_sim (2, 3) \<and>
   \<not> dgt (whole 3) (whole 3) \<and>
   tick_loop test_sim (whole 1) (whole 3) ((2, 3), whole 3)
     = tick_loop test_sim (whole 1) (whole 3) ((2, 4), whole 4)"
  using
    tick_termination_check [of test_sim "(3, 2)" "whole 1" "whole 3" "whole 5"]
    tick_termination_check [of test_sim "(1, 1)" "whole 1" "whole 3" "whole 1"]
    tick_termination_check [of test_sim "(2, 4)" "whole 1" "whole 3" "whole 4"]
    tick_termination_check [of test_sim "(2, 3)" "whole 1" "whole 3" "whole 3"]
  by (simp add: test_sim_simps test_fates_def whole_simps)

subsection \<open>C4: the success rate\<close>

text \<open>
  Claim C4 says that for a positive number of rounds the reported rate is the exact
  percentage of succeeded rounds, not an integer-truncated value. The code declares the
  rate a \<open>double\<close> and prints it with two decimals, but computes the quotient in
  \<open>uint64_t\<close>: with one round of three succeeded it reports 33, not 100/3.
\<close>

theorem success_rate_is_truncated:
  "run test_sim 3 ''unprotected_left_turn.yaml''
     = Some (Summary [Failed, Failed, Successed] 1 3 (whole 33)) \<and>
   dval (whole 33) = Some 33 \<and> (33 :: real) \<noteq> 100 * 1 / 3"
  by (simp add: test_run_3 dval_whole)

subsection \<open>C5: malformed configuration\<close>

text \<open>
  Claim C5 says that every malformed configuration, a file that does not parse or one
  that lacks a required key, makes the run stop with a diagnostic and without an
  unhandled exception. The code does so for the file that does not parse; for a file
  without \<open>delta_t\<close> the conversion on line 49, outside the \<open>try\<close> block, throws and
  nothing catches it.
\<close>

theorem missing_key_is_uncaught:
  "run test_sim 5 ''garbled.yaml'' = Some (ParseError ParserException) \<and>
   run test_sim 5 ''no_delta_t.yaml'' = Some (Uncaught (BadConversion ''delta_t''))"
  by (simp add: test_run_garbled test_run_no_delta_t)

subsection \<open>C8: the loop of a round terminates\<close>

text \<open>
  Claim C8 says that with a strictly positive \<open>delta_t\<close> the loop of a round ends after
  at most \<open>ceil (max_simulation_time / delta_t) + 1\<close> ticks. With doubles it need not.
  A step of 1 never carries the timestamp above an infinite ceiling, nor above a ceiling
  of \<open>2 ^ 53\<close>, where \<open>2 ^ 53 + 1\<close> rounds back to \<open>2 ^ 53\<close>: a round whose vehicles
  neither arrive nor collide then runs forever. And with a step of 5 and a ceiling of
  \<open>2 ^ 54 - 2\<close> no addition is absorbed, but from \<open>2 ^ 53\<close> on every addition of 5 rounds
  to an addition of 4: after the 3602879701896398 ticks of the claim's bound the
  timestamp is not yet above the ceiling, and such a round is still running.
\<close>

theorem tick_loop_outlasts_bound:
  "tick_loop test_sim (whole 1) PInf ((2, 0), Finite 0) = None \<and>
   tick_loop test_sim (whole 1) (whole (2 ^ 53)) ((2, 0), Finite 0) = None \<and>
   nat (\<lceil>real_of_int ((2 ^ 54 - 2) * 2 ^ denorm_exp) / real_of_int (5 * 2 ^ denorm_exp)\<rceil> + 1)
     = 3602879701896398 \<and>
   tick_loop test_sim (whole 5) (whole (2 ^ 54 - 2)) ((2, 0), Finite 0)
     = tick_loop test_sim (whole 5) (whole (2 ^ 54 - 2))
         ((2, 3602879701896398), timestamp_after (whole 5) 3602879701896398) \<and>
   \<not> dgt (timestamp_after (whole 5) 3602879701896398) (whole (2 ^ 54 - 2))"
proof (intro conjI)
  let ?I = "\<lambda>st :: (nat \<times> nat) \<times> double. fst (fst st) = 2"
  show "tick_loop test_sim (whole 1) PInf ((2, 0), Finite 0) = None"
  proof (rule tick_loop_diverges [where I = ?I])
    show "?I ((2, 0), Finite 0)" by simp
  next
    fix vehicles :: "nat \<times> nat" and timestamp :: double
    assume "?I (vehicles, timestamp)"
    then obtain k where "vehicles = (2, k)" by (cases vehicles) auto
    then show "\<not> is_all_get_target test_sim vehicles \<and>
       \<not> is_any_collision test_sim vehicles \<and> \<not> dgt timestamp PInf \<and>
       ?I (excute_all test_sim vehicles, dadd timestamp (whole 1))"
      by (simp add: test_sim_simps test_fates_def dgt_PInf)
  qed
next
  let ?I = "\<lambda>st :: (nat \<times> nat) \<times> double.
              fst (fst st) = 2 \<and> (\<exists>k. 0 \<le> k \<and> k \<le> 2 ^ 53 \<and> snd st = whole k)"
  show "tick_loop test_sim (whole 1) (whole (2 ^ 53)) ((2, 0), Finite 0) = None"
  proof (rule tick_loop_diverges [where I = ?I])
    have "\<exists>k::int. 0 \<le> k \<and> k \<le> 2 ^ 53 \<and> Finite 0 = whole k"
      by (rule exI [of _ 0]) (simp add: zero_eq_whole)
    then show "?I ((2, 0), Finite 0)" by simp
  next
    fix vehicles :: "nat \<times> nat" and timestamp :: double
    assume "?I (vehicles, timestamp)"
    then obtain j k where v: "vehicles = (2, j)"
      and k: "0 \<le> k" "k \<le> 2 ^ 53" "timestamp = whole k"
      by (cases vehicles) auto
    have "\<exists>k'. 0 \<le> k' \<and> k' \<le> 2 ^ 53 \<and> dadd (whole k) (whole 1) = whole k'"
    proof (cases "k = 2 ^ 53")
      case True
      have "dadd (whole (2 ^ 53)) (whole 1) = whole (2 ^ 53)"
        unfolding whole_def by (rule dadd_absorbed)
      with True show ?thesis by (intro exI [of _ "2 ^ 53"]) simp
    next
      case False
      with k have "\<bar>k + 1\<bar> \<le> 2 ^ 53" by simp
      then have "dadd (whole k) (whole 1) = whole (k + 1)"
        by (rule dadd_eq_whole)
      with False k show ?thesis by (intro exI [of _ "k + 1"]) simp
    qed
    with v k show "\<not> is_all_get_target test_sim vehicles \<and>
       \<not> is_any_collision test_sim vehicles \<and>
       \<not> dgt timestamp (whole (2 ^ 53)) \<and>
       ?I (excute_all test_sim vehicles, dadd timestamp (whole 1))"
      by (simp add: test_sim_simps test_fates_def dgt_whole)
  qed
next
  show "nat (\<lceil>real_of_int ((2 ^ 54 - 2) * 2 ^ denorm_exp) / real_of_int (5 * 2 ^ denorm_exp)\<rceil> + 1)
          = 3602879701896398"
    by (rule slow_round_bound)
next
  show "tick_loop test_sim (whole 5) (whole (2 ^ 54 - 2)) ((2, 0), Finite 0)
     = tick_loop test_sim (whole 5) (whole (2 ^ 54 - 2))
         ((2, 3602879701896398), timestamp_after (whole 5) 3602879701896398)"
    by (rule slow_round_still_running)
next
  show "\<not> dgt (timestamp_after (whole 5) 3602879701896398) (whole (2 ^ 54 - 2))"
    by (rule slow_steps_below) simp
qed

text \<open>
  Claim C8 as amended: let \<open>delta_t\<close> be a strictly positive finite double, of \<open>d\<close>
  units, and \<open>max_simulation_time\<close> a finite double, of \<open>m\<close> units. If no addition
  \<open>timestamp += delta_t\<close> is absorbed while the timestamp is not above the ceiling (the
  next timestamp is then strictly greater), the loop of a round returns, after some
  number \<open>n\<close> of ticks and with the timestamp of \<open>n\<close> additions. It returns after at most
  \<open>ceil (m / d) + 1\<close> ticks if the square of that bound is below \<open>2 ^ 53\<close> (a bound of
  up to some 94 million ticks), or if every addition up to the bound is exact.
\<close>

theorem tick_loop_terminates_unless_absorbed:
  fixes d m :: int
  assumes "0 < d"
  shows
    "((\<forall>k. \<not> dgt (timestamp_after (Finite d) k) (Finite m) \<longrightarrow>
           dgt (timestamp_after (Finite d) (Suc k)) (timestamp_after (Finite d) k)) \<longrightarrow>
      (\<exists>n oc. tick_loop W (Finite d) (Finite m) (vehicles, Finite 0)
                 = Some (oc, (excute_all W ^^ n) vehicles, timestamp_after (Finite d) n))) \<and>
     (nat (\<lceil>real_of_int m / real_of_int d\<rceil> + 1) * nat (\<lceil>real_of_int m / real_of_int d\<rceil> + 1)
        < 2 ^ 53 \<or>
      (\<forall>k < nat (\<lceil>real_of_int m / real_of_int d\<rceil> + 1).
         dadd (Finite (int k * d)) (Finite d) = Finite (int (Suc k) * d)) \<longrightarrow>
      (\<exists>n \<le> nat (\<lceil>real_of_int m / real_of_int d\<rceil> + 1). \<exists>oc.
         tick_loop W (Finite d) (Finite m) (vehicles, Finite 0)
           = Some (oc, (excute_all W ^^ n) vehicles, timestamp_after (Finite d) n)))"
proof (intro conjI impI)
  assume "\<forall>k. \<not> dgt (timestamp_after (Finite d) k) (Finite m) \<longrightarrow>
            dgt (timestamp_after (Finite d) (Suc k)) (timestamp_after (Finite d) k)"
  then obtain k where "dgt (timestamp_after (Finite d) k) (Finite m)"
    using timestamp_reaches_when_not_absorbed by blast
  from tick_loop_stops_by_timestamp [OF this, of W vehicles]
  show "\<exists>n oc. tick_loop W (Finite d) (Finite m) (vehicles, Finite 0)
                 = Some (oc, (excute_all W ^^ n) vehicles, timestamp_after (Finite d) n)"
    by blast
next
  define N where "N = nat (\<lceil>real_of_int m / real_of_int d\<rceil> + 1)"
  assume "nat (\<lceil>real_of_int m / real_of_int d\<rceil> + 1) * nat (\<lceil>real_of_int m / real_of_int d\<rceil> + 1)
        < 2 ^ 53 \<or>
      (\<forall>k < nat (\<lceil>real_of_int m / real_of_int d\<rceil> + 1).
         dadd (Finite (int k * d)) (Finite d) = Finite (int (Suc k) * d))"
  then have "N * N < 2 ^ 53 \<or>
      (\<forall>k<N. dadd (Finite (int k * d)) (Finite d) = Finite (int (Suc k) * d))"
    unfolding N_def .
  then have "dgt (timestamp_after (Finite d) N) (Finite m)"
  proof
    assume "N * N < 2 ^ 53"
    with assms N_def show ?thesis by (rule timestamp_reaches_within_bound)
  next
    assume "\<forall>k<N. dadd (Finite (int k * d)) (Finite d) = Finite (int (Suc k) * d)"
    then have "timestamp_after (Finite d) N = Finite (int N * d)"
      by (rule timestamp_after_exact) simp
    moreover have "m < int N * d" unfolding N_def by (rule ceiling_bound [OF assms])
    ultimately show ?thesis by simp
  qed
  from tick_loop_stops_by_timestamp [OF this, of W vehicles]
  show "\<exists>n \<le> nat (\<lceil>real_of_int m / real_of_int d\<rceil> + 1). \<exists>oc.
         tick_loop W (Finite d) (Finite m) (vehicles, Finite 0)
           = Some (oc, (excute_all W ^^ n) vehicles, timestamp_after (Finite d) n)"
    unfolding N_def .
qed

text \<open>
  Claim C8 as amended, at two instances. A step of 0.1, the double
  \<open>3602879701896397 * 2 ^ -55\<close>, with a ceiling of 1.0: the sums are rounded, no addition
  is absorbed, and the round ends within 11 ticks. A step of 0.25 with a ceiling of 20,
  which is 80 steps: the sums are exact and the round ends within 81 ticks.
\<close>

theorem tick_loop_terminates_unless_absorbed_witness:
  "(0::int) < 3602879701896397 * 2 ^ (denorm_exp - 55) \<and>
   (11::nat) * 11 < 2 ^ 53 \<and>
   (\<exists>n oc. tick_loop test_sim (Finite (3602879701896397 * 2 ^ (denorm_exp - 55)))
              (Finite (2 ^ 55 * 2 ^ (denorm_exp - 55))) ((2, 0), Finite 0)
            = Some (oc, (excute_all test_sim ^^ n) (2, 0),
                    timestamp_after (Finite (3602879701896397 * 2 ^ (denorm_exp - 55))) n)) \<and>
   (\<exists>n\<le>11. \<exists>oc. tick_loop test_sim (Finite (3602879701896397 * 2 ^ (denorm_exp - 55)))
              (Finite (2 ^ 55 * 2 ^ (denorm_exp - 55))) ((2, 0), Finite 0)
            = Some (oc, (excute_all test_sim ^^ n) (2, 0),
                    timestamp_after (Finite (3602879701896397 * 2 ^ (denorm_exp - 55))) n)) \<and>
   (0::int) < 2 ^ (denorm_exp - 2) \<and>
   (\<exists>n\<le>81. \<exists>oc. tick_loop test_sim (Finite (2 ^ (denorm_exp - 2)))
              (Finite (80 * 2 ^ (denorm_exp - 2))) ((2, 0), Finite 0)
            = Some (oc, (excute_all test_sim ^^ n) (2, 0),
                    timestamp_after (Finite (2 ^ (denorm_exp - 2))) n))"
proof -
  define j where "j = denorm_exp - 55"
  define i where "i = denorm_exp - 2"
  have pos: "(0::int) < 3602879701896397 * 2 ^ j" by simp
  have N: "nat (\<lceil>real_of_int (2 ^ 55 * 2 ^ j) / real_of_int (3602879701896397 * 2 ^ j)\<rceil> + 1) = 11"
    by simp
  have small: "(11::nat) * 11 < 2 ^ 53" by simp
  have "(2::int) ^ 55 < 3602879701896397 * (2 ^ 53 - 1)" by simp
  then have "(2::int) ^ 55 * 2 ^ j < 3602879701896397 * (2 ^ 53 - 1) * 2 ^ j"
    by (rule mult_strict_right_mono) simp
  then have below: "(2::int) ^ 55 * 2 ^ j < 3602879701896397 * 2 ^ j * (2 ^ 53 - 1)"
    by (simp only: mult.assoc mult.commute [of "2 ^ j"])
  note na = not_absorbed_below_ceiling [OF pos below]
  have pos': "(0::int) < 2 ^ i" by simp
  have N': "nat (\<lceil>real_of_int (80 * 2 ^ i) / real_of_int (2 ^ i)\<rceil> + 1) = 81"
    by simp
  have range: "i + 53 < overflow_exp"
    by (simp add: i_def denorm_exp_def overflow_exp_def)
  have "\<forall>k<81. dadd (Finite (int k * (1 * 2 ^ i))) (Finite (1 * 2 ^ i))
                  = Finite (int (Suc k) * (1 * 2 ^ i))"
    by (rule dyadic_steps_exact [OF _ _ range]) simp_all
  then have exact: "\<forall>k<81. dadd (Finite (int k * 2 ^ i)) (Finite (2 ^ i))
                        = Finite (int (Suc k) * 2 ^ i)"
    by simp
  note first = tick_loop_terminates_unless_absorbed
                 [OF pos, of "2 ^ 55 * 2 ^ j" test_sim "(2, 0)"]
  note second = tick_loop_terminates_unless_absorbed
                  [OF pos', of "80 * 2 ^ i" test_sim "(2, 0)"]
  have A: "\<exists>n oc. tick_loop test_sim (Finite (3602879701896397 * 2 ^ j))
              (Finite (2 ^ 55 * 2 ^ j)) ((2, 0), Finite 0)
            = Some (oc, (excute_all test_sim ^^ n) (2, 0),
                    timestamp_after (Finite (3602879701896397 * 2 ^ j)) n)"
    by (rule first [THEN conjunct1, THEN mp, OF na])
  have B: "\<exists>n\<le>11. \<exists>oc. tick_loop test_sim (Finite (3602879701896397 * 2 ^ j))
              (Finite (2 ^ 55 * 2 ^ j)) ((2, 0), Finite 0)
            = Some (oc, (excute_all test_sim ^^ n) (2, 0),
                    timestamp_after (Finite (3602879701896397 * 2 ^ j)) n)"
    using first [THEN conjunct2] small unfolding N by (rule mp [OF _ disjI1])
  have C: "\<exists>n\<le>81. \<exists>oc. tick_loop test_sim (Finite (2 ^ i))
              (Finite (80 * 2 ^ i)) ((2, 0), Finite 0)
            = Some (oc, (excute_all test_sim ^^ n) (2, 0), timestamp_after (Finite (2 ^ i)) n)"
    using second [THEN conjunct2] exact unfolding N' by (rule mp [OF _ disjI2])
  from pos small A B pos' C show ?thesis
    unfolding j_def i_def by (intro conjI)
qed

subsection \<open>C9: the success counter\<close>

text \<open>
  Claim C9: the success counter goes up at most once per round, and only where the
  round ended with all vehicles at their target, so that at the end of a run the count
  is at most the number of rounds played and the reported percentage is at most 100.
  Whenever \<open>run\<close> gets as far as line 157, there is one result per round played, each
  the result of the loop of that round started from the reset of the vehicles the round
  before left; the outcomes logged are those of these results; the counter is the
  number of rounds that ended with all vehicles at their target, which is the number
  logged as \<open>Successed\<close>, and is at most the number of rounds; and when the summary is
  printed, the rate is a whole number of at most 100.
\<close>

theorem succeed_count_counts_arrivals:
  assumes "run W n path = Some res"
    and "res = Summary logged succeed_count n' rate \<or> res = DivisionByZero logged succeed_count"
  shows "\<exists>cfg delta_t max_simulation_time vehicles rs.
           load_file W path = Inr cfg \<and>
           initialize W cfg = Inr (delta_t, max_simulation_time, vehicles) \<and>
           length rs = unat (scast n :: uint64) \<and>
           (\<forall>i<length rs.
              tick_loop W delta_t max_simulation_time
                (reset W (if i = 0 then vehicles
                          else replay_footprint W (fst (snd (rs ! (i - 1))))), Finite 0)
              = Some (rs ! i)) \<and>
           logged = map fst rs \<and>
           unat succeed_count = length (filter (\<lambda>r. is_all_get_target W (fst (snd r))) rs) \<and>
           unat succeed_count = length (filter (\<lambda>oc. oc = Successed) logged) \<and>
           unat succeed_count \<le> unat (scast n :: uint64) \<and>
           (res = Summary logged succeed_count n' rate \<longrightarrow>
              (\<exists>q\<le>100. dval rate = Some (real q)))"
proof -
  from assms obtain cfg delta_t max_simulation_time vehicles vehicles' where
    cfg: "load_file W path = Inr cfg"
    and init: "initialize W cfg = Inr (delta_t, max_simulation_time, vehicles)"
    and loop: "rounds_loop W delta_t max_simulation_time (scast n) (0, 0, [], vehicles)
                 = Some (succeed_count, logged, vehicles')"
    and rate: "res = Summary logged succeed_count n' rate \<longrightarrow>
                 succeed_rate succeed_count n = Some rate"
    by (rule run_rounds)
  from rounds_loop_played [OF loop] obtain rs where
    played: "rounds_played W delta_t max_simulation_time vehicles rs"
    and len: "length rs = unat (scast n :: uint64)"
    and lg: "logged = map fst rs"
    and sc: "succeed_count
               = of_nat (length (filter (\<lambda>r. is_all_get_target W (fst (snd r))) rs))"
    by auto
  let ?c = "length (filter (\<lambda>r. is_all_get_target W (fst (snd r))) rs)"
  have "?c \<le> length rs" by (rule length_filter_le)
  also have "\<dots> < 2 ^ LENGTH(64)" unfolding len by (rule unsigned_less)
  finally have "?c < 2 ^ LENGTH(64)" .
  with sc have cnt: "unat succeed_count = ?c"
    by (rule of_nat_inverse [OF sym])
  have le: "unat succeed_count \<le> unat (scast n :: uint64)"
    using cnt len by (metis length_filter_le)
  have "filter (\<lambda>oc. oc = Successed) (map fst rs)
          = map fst (filter (\<lambda>r. fst r = Successed) rs)"
    by (simp add: filter_map o_def)
  then have cnt': "unat succeed_count = length (filter (\<lambda>oc. oc = Successed) logged)"
    using cnt rounds_played_outcomes [OF played] lg by simp
  have nth: "\<forall>i<length rs.
              tick_loop W delta_t max_simulation_time
                (reset W (if i = 0 then vehicles
                          else replay_footprint W (fst (snd (rs ! (i - 1))))), Finite 0)
              = Some (rs ! i)"
    using rounds_played_nth [OF played] by blast
  have pct: "res = Summary logged succeed_count n' rate \<longrightarrow>
               (\<exists>q\<le>100. dval rate = Some (real q))"
  proof
    assume "res = Summary logged succeed_count n' rate"
    with rate have r0: "succeed_rate succeed_count n = Some rate" by simp
    define q where "q = (100 * succeed_count) div (scast n :: uint64)"
    from r0 have nz: "(scast n :: uint64) \<noteq> 0" and r: "rate = u64_to_double q"
      by (auto simp add: succeed_rate_def Let_def q_def split: if_splits)
    have q: "unat q \<le> 100" unfolding q_def using le nz by (rule rate_le_100)
    have big: "(100 :: int) \<le> 2 ^ 53" by simp
    have "uint q = int (unat q)" by simp
    with q big have "uint q \<le> 2 ^ 53" by linarith
    then have "rate = whole (int (unat q))" using r by (simp add: u64_to_double_small)
    then have "dval rate = Some (real (unat q))"
      by (simp add: dval_whole)
    with q show "\<exists>q\<le>100. dval rate = Some (real q)" by blast
  qed
  from cfg init len nth lg cnt cnt' le pct show ?thesis by blast
qed

theorem succeed_count_counts_arrivals_witness:
  "run test_sim 3 ''unprotected_left_turn.yaml''
     = Some (Summary [Failed, Failed, Successed] 1 3 (whole 33)) \<and>
   (\<exists>cfg delta_t max_simulation_time vehicles rs.
      load_file test_sim ''unprotected_left_turn.yaml'' = Inr cfg \<and>
      initialize test_sim cfg = Inr (delta_t, max_simulation_time, vehicles) \<and>
      length rs = 3 \<and>
      (\<forall>i<length rs.
         tick_loop test_sim delta_t max_simulation_time
           (reset test_sim (if i = 0 then vehicles
                            else replay_footprint test_sim (fst (snd (rs ! (i - 1))))), Finite 0)
         = Some (rs ! i)) \<and>
      [Failed, Failed, Successed] = map fst rs \<and>
      unat (1 :: uint64) = length (filter (\<lambda>r. is_all_get_target test_sim (fst (snd r))) rs) \<and>
      (\<exists>q\<le>100. dval (whole 33) = Some (real q))) \<and>
   run test_sim 0 ''unprotected_left_turn.yaml'' = Some (DivisionByZero [] 0) \<and>
   (\<exists>cfg delta_t max_simulation_time vehicles rs.
      load_file test_sim ''unprotected_left_turn.yaml'' = Inr cfg \<and>
      initialize test_sim cfg = Inr (delta_t, max_simulation_time, vehicles) \<and>
      length rs = 0 \<and>
      (\<forall>i<length rs.
         tick_loop test_sim delta_t max_simulation_time
           (reset test_sim (if i = 0 then vehicles
                            else replay_footprint test_sim (fst (snd (rs ! (i - 1))))), Finite 0)
         = Some (rs ! i)) \<and>
      [] = map fst rs \<and>
      unat (0 :: uint64) = length (filter (\<lambda>r. is_all_get_target test_sim (fst (snd r))) rs))"
proof -
  have n3: "unat (scast (3 :: int32) :: uint64) = 3" and n0: "unat (scast (0 :: int32) :: uint64) = 0"
    by simp_all
  from succeed_count_counts_arrivals [OF test_run_3 disjI1 [OF refl]]
  obtain cfg delta_t max_simulation_time vehicles rs where
    "load_file test_sim ''unprotected_left_turn.yaml'' = Inr cfg \<and>
     initialize test_sim cfg = Inr (delta_t, max_simulation_time, vehicles) \<and>
     length rs = unat (scast (3 :: int32) :: uint64) \<and>
     (\<forall>i<length rs.
        tick_loop test_sim delta_t max_simulation_time
          (reset test_sim (if i = 0 then vehicles
                           else replay_footprint test_sim (fst (snd (rs ! (i - 1))))), Finite 0)
        = Some (rs ! i)) \<and>
     [Failed, Failed, Successed] = map fst rs \<and>
     unat (1 :: uint64) = length (filter (\<lambda>r. is_all_get_target test_sim (fst (snd r))) rs) \<and>
     unat (1 :: uint64) = length (filter (\<lambda>oc. oc = Successed) [Failed, Failed, Successed]) \<and>
     unat (1 :: uint64) \<le> unat (scast (3 :: int32) :: uint64) \<and>
     (Summary [Failed, Failed, Successed] 1 3 (whole 33)
        = Summary [Failed, Failed, Successed] 1 3 (whole 33) \<longrightarrow>
      (\<exists>q\<le>100. dval (whole 33) = Some (real q)))"
    by (elim exE) (erule that)
  then have "load_file test_sim ''unprotected_left_turn.yaml'' = Inr cfg \<and>
      initialize test_sim cfg = Inr (delta_t, max_simulation_time, vehicles) \<and>
      length rs = 3 \<and>
      (\<forall>i<length rs.
         tick_loop test_sim delta_t max_simulation_time
           (reset test_sim (if i = 0 then vehicles
                            else replay_footprint test_sim (fst (snd (rs ! (i - 1))))), Finite 0)
         = Some (rs ! i)) \<and>
      [Failed, Failed, Successed] = map fst rs \<and>
      unat (1 :: uint64) = length (filter (\<lambda>r. is_all_get_target test_sim (fst (snd r))) rs) \<and>
      (\<exists>q\<le>100. dval (whole 33) = Some (real q))"
    unfolding n3 by blast
  then have three: "\<exists>cfg delta_t max_simulation_time vehicles rs.
      load_file test_sim ''unprotected_left_turn.yaml'' = Inr cfg \<and>
      initialize test_sim cfg = Inr (delta_t, max_simulation_time, vehicles) \<and>
      length rs = 3 \<and>
      (\<forall>i<length rs.
         tick_loop test_sim delta_t max_simulation_time
           (reset test_sim (if i = 0 then vehicles
                            else replay_footprint test_sim (fst (snd (rs ! (i - 1))))), Finite 0)
         = Some (rs ! i)) \<and>
      [Failed, Failed, Successed] = map fst rs \<and>
      unat (1 :: uint64) = length (filter (\<lambda>r. is_all_get_target test_sim (fst (snd r))) rs) \<and>
      (\<exists>q\<le>100. dval (whole 33) = Some (real q))"
    by (intro exI)
  from succeed_count_counts_arrivals
         [where n' = 0 and rate = "whole 0", OF test_run_0 disjI2 [OF refl]]
  obtain cfg' delta_t' max_simulation_time' vehicles' rs' where
    "load_file test_sim ''unprotected_left_turn.yaml'' = Inr cfg' \<and>
     initialize test_sim cfg' = Inr (delta_t', max_simulation_time', vehicles') \<and>
     length rs' = unat (scast (0 :: int32) :: uint64) \<and>
     (\<forall>i<length rs'.
        tick_loop test_sim delta_t' max_simulation_time'
          (reset test_sim (if i = 0 then vehicles'
                           else replay_footprint test_sim (fst (snd (rs' ! (i - 1))))), Finite 0)
        = Some (rs' ! i)) \<and>
     [] = map fst rs' \<and>
     unat (0 :: uint64) = length (filter (\<lambda>r. is_all_get_target test_sim (fst (snd r))) rs') \<and>
     unat (0 :: uint64) = length (filter (\<lambda>oc. oc = Successed) []) \<and>
     unat (0 :: uint64) \<le> unat (scast (0 :: int32) :: uint64) \<and>
     (DivisionByZero [] 0 = Summary [] 0 0 (whole 0) \<longrightarrow>
      (\<exists>q\<le>100. dval (whole 0) = Some (real q)))"
    by (elim exE) (erule that)
  then have "load_file test_sim ''unprotected_left_turn.yaml'' = Inr cfg' \<and>
      initialize test_sim cfg' = Inr (delta_t', max_simulation_time', vehicles') \<and>
      length rs' = 0 \<and>
      (\<forall>i<length rs'.
         tick_loop test_sim delta_t' max_simulation_time'
           (reset test_sim (if i = 0 then vehicles'
                            else replay_footprint test_sim (fst (snd (rs' ! (i - 1))))), Finite 0)
         = Some (rs' ! i)) \<and>
      [] = map fst rs' \<and>
      unat (0 :: uint64) = length (filter (\<lambda>r. is_all_get_target test_sim (fst (snd r))) rs')"
    unfolding n0 by blast
  then have zero: "\<exists>cfg delta_t max_simulation_time vehicles rs.
      load_file test_sim ''unprotected_left_turn.yaml'' = Inr cfg \<and>
      initialize test_sim cfg = Inr (delta_t, max_simulation_time, vehicles) \<and>
      length rs = 0 \<and>
      (\<forall>i<length rs.
         tick_loop test_sim delta_t max_simulation_time
           (reset test_sim (if i = 0 then vehicles
                            else replay_footprint test_sim (fst (snd (rs ! (i - 1))))), Finite 0)
         = Some (rs ! i)) \<and>
      [] = map fst rs \<and>
      unat (0 :: uint64) = length (filter (\<lambda>r. is_all_get_target test_sim (fst (snd r))) rs)"
    by (intro exI)
  from test_run_3 three test_run_0 zero show ?thesis by (intro conjI)
qed

subsection \<open>C10: an unknown log level\<close>

text \<open>
  Claim C10: a \<open>--log_level\<close> argument that is none of trace, debug, info, warn, err and
  critical is not rejected. The lookup inserts it with the value-initialised level,
  number 0, which is \<open>trace\<close>, and \<open>main\<close> goes on to \<open>run\<close> with that level set: given last,
  the option changes nothing else, and wherever it is given, if it is the one in force
  when the options have been read, \<open>main\<close> calls \<open>run\<close> with level \<open>trace\<close>.
\<close>

theorem unknown_log_level_is_trace:
  assumes "name \<notin> {''trace'', ''debug'', ''info'', ''warn'', ''err'', ''critical''}"
  shows "subscript LOG_LEVEL_DICT name = (trace, LOG_LEVEL_DICT(name \<mapsto> trace)) \<and>
         level_number trace = 0 \<and>
         main W stoi (opts @ [Opt_l name]) =
           (case parse_opts stoi main_defaults opts of
              Inl x \<Rightarrow> Inl x
            | Inr vars \<Rightarrow> Inr (trace, run W (rounds_num vars) (config_path vars))) \<and>
         (parse_opts stoi main_defaults opts' = Inr vars' \<and> log_level vars' = name \<longrightarrow>
            main W stoi opts' = Inr (trace, run W (rounds_num vars') (config_path vars')))"
proof -
  have absent: "LOG_LEVEL_DICT name = None"
    using assms by (simp add: LOG_LEVEL_DICT_def)
  then have sub: "subscript LOG_LEVEL_DICT name = (trace, LOG_LEVEL_DICT(name \<mapsto> trace))"
    by (simp add: subscript_def value_initialized_def)
  have last: "main W stoi (opts @ [Opt_l name]) =
           (case parse_opts stoi main_defaults opts of
              Inl x \<Rightarrow> Inl x
            | Inr vars \<Rightarrow> Inr (trace, run W (rounds_num vars) (config_path vars)))"
    using sub by (simp add: main_def parse_opts_snoc_l split: sum.splits)
  have anywhere: "parse_opts stoi main_defaults opts' = Inr vars' \<and> log_level vars' = name \<longrightarrow>
            main W stoi opts' = Inr (trace, run W (rounds_num vars') (config_path vars'))"
    using sub by (auto simp add: main_def)
  from sub last anywhere show ?thesis by simp
qed

theorem unknown_log_level_is_trace_witness:
  "''verbose'' \<notin> {''trace'', ''debug'', ''info'', ''warn'', ''err'', ''critical''} \<and>
   subscript LOG_LEVEL_DICT ''verbose'' = (trace, LOG_LEVEL_DICT(''verbose'' \<mapsto> trace)) \<and>
   main test_sim test_stoi [Opt_r ''3'', Opt_l ''verbose'']
     = Inr (trace, Some (Summary [Failed, Failed, Successed] 1 3 (whole 33))) \<and>
   parse_opts test_stoi main_defaults [Opt_l ''verbose'', Opt_r ''3'']
     = Inr (main_defaults\<lparr>log_level := ''verbose'', rounds_num := 3\<rparr>) \<and>
   main test_sim test_stoi [Opt_l ''verbose'', Opt_r ''3'']
     = Inr (trace, Some (Summary [Failed, Failed, Successed] 1 3 (whole 33)))"
proof -
  have h: "''verbose'' \<notin> {''trace'', ''debug'', ''info'', ''warn'', ''err'', ''critical''}"
    by simp
  have p: "parse_opts test_stoi main_defaults [Opt_l ''verbose'', Opt_r ''3'']
             = Inr (main_defaults\<lparr>log_level := ''verbose'', rounds_num := 3\<rparr>)"
    by (simp add: test_stoi_def)
  show ?thesis
    using h p
      unknown_log_level_is_trace [OF h, of test_sim test_stoi "[Opt_r ''3'']"
        "[Opt_l ''verbose'', Opt_r ''3'']"
        "main_defaults\<lparr>log_level := ''verbose'', rounds_num := 3\<rparr>"]
    by (simp add: test_stoi_def main_defaults_def test_run_3)
qed

end
